(* ===== verification/Prelude.thy ===== *)
theory Prelude
  imports Complex_Main "HOL-Library.Word" "HOL-Library.Sublist"
begin

text \<open>
  What every theory of the development shares: the exceptions the Python code can raise, the
  machine integers of the eBPF side, the collections of rewrite rules (\<open>py_text\<close> for the string
  operations, \<open>frame\<close> for the facts that say which fields an operation leaves alone), and a few
  generic facts on lists and maps.

  Conventions of the model. A Python \<open>int\<close> is an \<open>int\<close>. A Python \<open>float\<close> that carries a time is an
  exact rational: the rounding of double precision is not modelled. A Python \<open>dict\<close> is a map where
  only lookups matter and an association list where the code iterates over it. A method that
  mutates its object takes the object's state and returns the new one; a method that can raise
  returns a sum, \<open>Inl\<close> for the exception, beside the state it leaves behind.
\<close>

section \<open>Exceptions and machine integers\<close>

datatype py_error =
    KeyError string
  | TypeError
  | AttributeError
  | ValueError
  | ZeroDivisionError
  | ApiError int

type_synonym 'a result = "py_error + 'a"

text \<open>The statements after one that may raise: they run on its value, and an exception skips them.\<close>

fun and_then :: "'a result \<Rightarrow> ('a \<Rightarrow> 'b result) \<Rightarrow> 'b result" where
  "and_then (Inl e) f = Inl e"
| "and_then (Inr x) f = f x"

lemma and_then_Inl_iff: "and_then r f = Inl e \<longleftrightarrow> r = Inl e \<or> (\<exists>x. r = Inr x \<and> f x = Inl e)"
  by (cases r) simp_all

lemma and_then_Inr_iff: "and_then r f = Inr y \<longleftrightarrow> (\<exists>x. r = Inr x \<and> f x = Inr y)"
  by (cases r) auto

type_synonym u8 = "8 word"
type_synonym u16 = "16 word"
type_synonym u32 = "32 word"
type_synonym u64 = "64 word"

named_theorems py_text \<open>rewrite rules of the Python string operations\<close>
named_theorems frame \<open>fields an operation leaves unchanged\<close>

section \<open>Lists\<close>

lemma sum_list_nonneg_int:
  fixes xs :: "int list"
  assumes "\<And>x. x \<in> set xs \<Longrightarrow> 0 \<le> x"
  shows "0 \<le> sum_list xs"
  using assms by (induction xs) auto

lemma sum_list_all_zero: "\<forall>x \<in> set xs. x = 0 \<Longrightarrow> sum_list xs = (0::int)"
  by (induction xs) auto

lemma member_le_sum_list_int:
  fixes xs :: "int list"
  assumes "x \<in> set xs" "\<And>y. y \<in> set xs \<Longrightarrow> 0 \<le> y"
  shows "x \<le> sum_list xs"
proof -
  obtain a b where "xs = a @ x # b" using assms(1) by (meson split_list)
  with assms(2) show ?thesis
    using sum_list_nonneg_int [of a] sum_list_nonneg_int [of b] by simp
qed

lemma dropWhile_eq_filter_sorted:
  fixes f :: "'a \<Rightarrow> 'b::linorder"
  assumes "sorted (map f xs)"
  shows "dropWhile (\<lambda>x. f x < c) xs = filter (\<lambda>x. c \<le> f x) xs"
  using assms
proof (induction xs)
  case Nil
  then show ?case by simp
next
  case (Cons x xs)
  show ?case
  proof (cases "f x < c")
    case True
    with Cons show ?thesis by simp
  next
    case False
    with Cons.prems have "filter (\<lambda>x. c \<le> f x) xs = xs"
      by (auto intro!: filter_True)
    with False show ?thesis by simp
  qed
qed

lemma sorted_map_dropWhile:
  "sorted (map f xs) \<Longrightarrow> sorted (map f (dropWhile P xs))"
  by (induction xs) auto

lemma set_dropWhile_subset: "set (dropWhile P xs) \<subseteq> set xs"
  by (induction xs) auto

lemma filter_conj_stronger:
  assumes "\<And>x. Q x \<Longrightarrow> P x"
  shows "filter Q (filter P xs) = filter Q xs"
  using assms by (induction xs) auto

section \<open>Association lists as dictionaries\<close>

text \<open>
  \<open>dict_get d k v\<close> is \<open>d.get(k, v)\<close>; \<open>dict_set d k v\<close> is \<open>d[k] = v\<close>: Python keeps the position of
  a key that is already there and appends a new one.
\<close>

definition dict_get :: "('k \<times> 'v) list \<Rightarrow> 'k \<Rightarrow> 'v \<Rightarrow> 'v" where
  "dict_get d k v = (case map_of d k of None \<Rightarrow> v | Some w \<Rightarrow> w)"

fun dict_set :: "('k \<times> 'v) list \<Rightarrow> 'k \<Rightarrow> 'v \<Rightarrow> ('k \<times> 'v) list" where
  "dict_set [] k v = [(k, v)]"
| "dict_set ((k', w) # d) k v = (if k' = k then (k, v) # d else (k', w) # dict_set d k v)"

lemma map_of_dict_set [simp]: "map_of (dict_set d k v) = (map_of d)(k \<mapsto> v)"
  by (induction d k v rule: dict_set.induct) (auto simp: fun_eq_iff)

lemma dict_get_set_same [simp]: "dict_get (dict_set d k v) k w = v"
  by (simp add: dict_get_def)

lemma dict_get_set_other [simp]: "k \<noteq> l \<Longrightarrow> dict_get (dict_set d k v) l w = dict_get d l w"
  by (simp add: dict_get_def)

lemma fst_set_dict_set: "fst ` set (dict_set d k v) = insert k (fst ` set d)"
  by (induction d k v rule: dict_set.induct) auto

lemma distinct_dict_set:
  "distinct (map fst d) \<Longrightarrow> distinct (map fst (dict_set d k v))"
  by (induction d k v rule: dict_set.induct) (auto simp: fst_set_dict_set image_iff)

lemma in_set_dict_set: "x \<in> set (dict_set d k v) \<Longrightarrow> x = (k, v) \<or> x \<in> set d"
  by (induction d k v rule: dict_set.induct) (auto split: if_splits)

lemma dict_get_not_in: "k \<notin> fst ` set d \<Longrightarrow> dict_get d k v = v"
  by (simp add: dict_get_def flip: map_of_eq_None_iff)

end
