(* ===== verification/PyText.thy ===== *)
theory PyText
  imports Prelude
begin

text \<open>
  The string operations the code uses, on a Python \<open>str\<close> represented by its UTF-8 bytes (a HOL
  \<open>string\<close>, whose characters are bytes): prefix, suffix and substring tests, \<open>rsplit\<close>, joining,
  decimal and fixed-point formatting. Comparing, searching and concatenating UTF-8 text byte by
  byte is the same as doing so by code point; the operations that do count code points are in
  the theory \<open>Utf8\<close>.
\<close>

section \<open>Tests and splitting\<close>

definition startswith :: "string \<Rightarrow> string \<Rightarrow> bool" where
  "startswith s p = (take (length p) s = p)"

definition endswith :: "string \<Rightarrow> string \<Rightarrow> bool" where
  "endswith s p = (length p \<le> length s \<and> drop (length s - length p) s = p)"

fun contains :: "string \<Rightarrow> string \<Rightarrow> bool" where
  "contains p [] = (p = [])"
| "contains p (c # cs) = (startswith (c # cs) p \<or> contains p cs)"

text \<open>\<open>s.rsplit(c, 1)\<close>: the part before the last separator and the part after it.\<close>

definition rsplit1 :: "char \<Rightarrow> string \<Rightarrow> string list" where
  "rsplit1 c s =
     (let tail = takeWhile (\<lambda>x. x \<noteq> c) (rev s); before = dropWhile (\<lambda>x. x \<noteq> c) (rev s)
      in if before = [] then [s] else [rev (tl before), rev tail])"

definition basename :: "string \<Rightarrow> string" where
  "basename s = last (rsplit1 (CHR ''/'') s)"

fun split_on :: "char \<Rightarrow> string \<Rightarrow> string list" where
  "split_on c [] = [[]]"
| "split_on c (x # xs) =
     (if x = c then [] # split_on c xs
      else (case split_on c xs of [] \<Rightarrow> [[x]] | w # ws \<Rightarrow> (x # w) # ws))"

fun join :: "string \<Rightarrow> string list \<Rightarrow> string" where
  "join sep [] = []"
| "join sep [x] = x"
| "join sep (x # y # ys) = x @ sep @ join sep (y # ys)"

lemma startswith_prefix [py_text]: "startswith s p = prefix p s"
proof
  assume "startswith s p"
  then have "s = p @ drop (length p) s"
    unfolding startswith_def by (metis append_take_drop_id)
  then show "prefix p s" by (rule prefixI)
qed (auto simp: startswith_def prefix_def)

lemma endswith_suffix [py_text]: "endswith s p = suffix p s"
proof
  assume "endswith s p"
  then have "s = take (length s - length p) s @ p"
    unfolding endswith_def by (metis append_take_drop_id)
  then show "suffix p s" by (rule suffixI)
qed (auto simp: endswith_def suffix_def)

lemma contains_sublist [py_text]: "contains p s = sublist p s"
  by (induction s) (auto simp: startswith_prefix sublist_Cons_right)

lemma rsplit1_no_sep: "c \<notin> set s \<Longrightarrow> rsplit1 c s = [s]"
  by (auto simp: rsplit1_def dropWhile_eq_Nil_conv)

lemma rsplit1_sep:
  assumes "c \<notin> set b"
  shows "rsplit1 c (a @ c # b) = [a, b]"
proof -
  have "takeWhile (\<lambda>x. x \<noteq> c) (rev b @ c # rev a) = rev b"
    using assms by (subst takeWhile_append2) auto
  moreover have "dropWhile (\<lambda>x. x \<noteq> c) (rev b @ c # rev a) = c # rev a"
    using assms by (subst dropWhile_append2) auto
  ultimately show ?thesis by (simp add: rsplit1_def)
qed

lemma basename_no_sep: "CHR ''/'' \<notin> set s \<Longrightarrow> basename s = s"
  by (simp add: basename_def rsplit1_no_sep)

lemma basename_sep: "CHR ''/'' \<notin> set b \<Longrightarrow> basename (a @ CHR ''/'' # b) = b"
  by (simp add: basename_def rsplit1_sep)

lemma split_last_sep: "c \<in> set s \<Longrightarrow> \<exists>a b. s = a @ c # b \<and> c \<notin> set b"
  by (metis split_list_last)

text \<open>A base name is either the whole name or what follows a final slash.\<close>

lemma basename_eq_iff:
  assumes "CHR ''/'' \<notin> set w"
  shows "basename s = w \<longleftrightarrow> s = w \<or> suffix (CHR ''/'' # w) s"
proof (cases "CHR ''/'' \<in> set s")
  case False
  then show ?thesis
    by (auto simp: basename_no_sep suffix_def)
next
  case True
  then obtain a b where s: "s = a @ CHR ''/'' # b" and b: "CHR ''/'' \<notin> set b"
    by (blast dest: split_last_sep)
  have "suffix (CHR ''/'' # w) s \<longleftrightarrow> w = b"
  proof
    assume "suffix (CHR ''/'' # w) s"
    then obtain a' where "a @ CHR ''/'' # b = a' @ CHR ''/'' # w"
      by (auto simp: suffix_def s)
    then have "rsplit1 (CHR ''/'') (a @ CHR ''/'' # b) = rsplit1 (CHR ''/'') (a' @ CHR ''/'' # w)"
      by simp
    then show "w = b"
      unfolding rsplit1_sep [OF b] rsplit1_sep [OF assms] by simp
  qed (auto simp: s suffix_def)
  with True assms b s show ?thesis by (auto simp: basename_sep)
qed

lemma split_on_not_Nil [simp]: "split_on c s \<noteq> []"
  by (induction s) (auto split: list.splits)

section \<open>Decimal and fixed-point text\<close>

definition digit_char :: "nat \<Rightarrow> char" where
  "digit_char d = ''0123456789'' ! d"

fun show_nat :: "nat \<Rightarrow> string" where
  "show_nat n = (if n < 10 then [digit_char n] else show_nat (n div 10) @ [digit_char (n mod 10)])"

declare show_nat.simps [simp del]

definition show_int :: "int \<Rightarrow> string" where
  "show_int i = (if i < 0 then CHR ''-'' # show_nat (nat (- i)) else show_nat (nat i))"

definition round_half_even :: "rat \<Rightarrow> int" where
  "round_half_even r =
     (let f = \<lfloor>r\<rfloor>; d = r - of_int f
      in if d < 1 / 2 then f else if 1 / 2 < d then f + 1 else if even f then f else f + 1)"

definition zero_pad :: "nat \<Rightarrow> string \<Rightarrow> string" where
  "zero_pad k s = replicate (k - length s) (CHR ''0'') @ s"

text \<open>The format specification \<open>.kf\<close>, with ties rounded to even as the correctly rounded conversion does..\<close>

definition fmt_fixed :: "nat \<Rightarrow> rat \<Rightarrow> string" where
  "fmt_fixed k r =
     (let n = nat (round_half_even (\<bar>r\<bar> * 10 ^ k))
      in (if r < 0 then ''-'' else []) @
         (if k = 0 then show_nat n
          else show_nat (n div 10 ^ k) @ ''.'' @ zero_pad k (show_nat (n mod 10 ^ k))))"

lemma show_nat_not_Nil [simp]: "show_nat n \<noteq> []"
  by (subst show_nat.simps) simp

lemma Nil_not_show_nat [simp]: "[] \<noteq> show_nat n"
  using show_nat_not_Nil by metis

lemma digit_char_inj: "a < 10 \<Longrightarrow> b < 10 \<Longrightarrow> digit_char a = digit_char b \<longleftrightarrow> a = b"
  unfolding digit_char_def
  by (subst nth_eq_iff_index_eq) auto

lemma show_nat_inj: "show_nat m = show_nat n \<Longrightarrow> m = n"
proof (induction m arbitrary: n rule: show_nat.induct)
  case (1 m)
  have m: "m < 10 \<Longrightarrow> show_nat m = [digit_char m]"
    and m': "\<not> m < 10 \<Longrightarrow> show_nat m = show_nat (m div 10) @ [digit_char (m mod 10)]"
    and n: "n < 10 \<Longrightarrow> show_nat n = [digit_char n]"
    and n': "\<not> n < 10 \<Longrightarrow> show_nat n = show_nat (n div 10) @ [digit_char (n mod 10)]"
    by (simp_all add: show_nat.simps [of m] show_nat.simps [of n])
  show ?case
  proof (cases "m < 10"; cases "n < 10")
    assume "\<not> m < 10" "\<not> n < 10"
    with "1.prems" m' n' have "show_nat (m div 10) = show_nat (n div 10)" "m mod 10 = n mod 10"
      by (simp_all add: digit_char_inj)
    with "1.IH" [OF \<open>\<not> m < 10\<close>] show ?thesis by (metis div_mult_mod_eq)
  qed (use "1.prems" m m' n n' in \<open>simp_all add: digit_char_inj\<close>)
qed

end
