(* ===== verification/Utf8.thy ===== *)
theory Utf8
  imports PyText
begin

text \<open>
  Text as UTF-8: the decoding of raw bytes with the \<open>replace\<close> error handler, and the string
  operations that count or classify code points (length, slicing, \<open>isdigit\<close>). The lemmas show
  that decoding neither hides nor invents an ASCII prefix, suffix or base name, so a rule that
  tests the decoded path is a rule on the bytes the kernel copied.
\<close>

section \<open>Text as UTF-8\<close>

definition byte :: "char \<Rightarrow> nat" where
  "byte c = of_char c"

definition ascii :: "string \<Rightarrow> bool" where
  "ascii s = list_all (\<lambda>c. byte c < 128) s"

definition cont_byte :: "char \<Rightarrow> bool" where
  "cont_byte c = (128 \<le> byte c \<and> byte c < 192)"

text \<open>
  The second byte a lead byte admits: overlong forms, surrogates and values past U+10FFFF are
  excluded here, as the decoder does.
\<close>

definition second_ok :: "nat \<Rightarrow> nat \<Rightarrow> bool" where
  "second_ok b c =
     (if b = 0xE0 then 0xA0 \<le> c \<and> c \<le> 0xBF
      else if b = 0xED then 0x80 \<le> c \<and> c \<le> 0x9F
      else if b = 0xF0 then 0x90 \<le> c \<and> c \<le> 0xBF
      else if b = 0xF4 then 0x80 \<le> c \<and> c \<le> 0x8F
      else 0x80 \<le> c \<and> c \<le> 0xBF)"

text \<open>
  One step of the decoder on a non-empty input: whether a well-formed sequence stands at the
  front, and how many bytes it takes; for an ill-formed one, the length of the maximal subpart
  that one U+FFFD replaces.
\<close>

fun utf8_step :: "string \<Rightarrow> bool \<times> nat" where
  "utf8_step [] = (False, 1)"
| "utf8_step (b # bs) =
     (if byte b < 0x80 then (True, 1)
      else if 0xC2 \<le> byte b \<and> byte b \<le> 0xDF then
        (case bs of c # _ \<Rightarrow> if cont_byte c then (True, 2) else (False, 1) | [] \<Rightarrow> (False, 1))
      else if 0xE0 \<le> byte b \<and> byte b \<le> 0xEF then
        (case bs of
           [] \<Rightarrow> (False, 1)
         | [c] \<Rightarrow> if second_ok (byte b) (byte c) then (False, 2) else (False, 1)
         | c # d # _ \<Rightarrow>
             if second_ok (byte b) (byte c)
             then (if cont_byte d then (True, 3) else (False, 2)) else (False, 1))
      else if 0xF0 \<le> byte b \<and> byte b \<le> 0xF4 then
        (case bs of
           [] \<Rightarrow> (False, 1)
         | [c] \<Rightarrow> if second_ok (byte b) (byte c) then (False, 2) else (False, 1)
         | [c, d] \<Rightarrow>
             if second_ok (byte b) (byte c)
             then (if cont_byte d then (False, 3) else (False, 2)) else (False, 1)
         | c # d # e # _ \<Rightarrow>
             if second_ok (byte b) (byte c)
             then (if cont_byte d then (if cont_byte e then (True, 4) else (False, 3))
                   else (False, 2))
             else (False, 1))
      else (False, 1))"

definition replacement_char :: string where
  "replacement_char = [CHR 0xEF, CHR 0xBF, CHR 0xBD]"

lemma utf8_step_pos: "0 < snd (utf8_step s)"
  by (cases s) (auto split: list.splits)

declare utf8_step.simps [simp del]

text \<open>\<open>b.decode("utf-8", "replace")\<close>.\<close>

function decode_replace :: "string \<Rightarrow> string" where
  "decode_replace s =
     (if s = [] then []
      else (if fst (utf8_step s) then take (snd (utf8_step s)) s else replacement_char) @
           decode_replace (drop (snd (utf8_step s)) s))"
  by pat_completeness auto
termination
  by (relation "measure length") (auto simp: utf8_step_pos)

declare decode_replace.simps [simp del]

section \<open>Code points\<close>

fun code_point :: "string \<Rightarrow> nat" where
  "code_point [b] = byte b"
| "code_point [b, c] = (byte b mod 32) * 64 + byte c mod 64"
| "code_point [b, c, d] = (byte b mod 16) * 4096 + (byte c mod 64) * 64 + byte d mod 64"
| "code_point [b, c, d, e] =
     (byte b mod 8) * 262144 + (byte c mod 64) * 4096 + (byte d mod 64) * 64 + byte e mod 64"
| "code_point _ = 0"

text \<open>The characters of a text, each as its own UTF-8 text.\<close>

function chars :: "string \<Rightarrow> string list" where
  "chars s =
     (if s = [] then []
      else take (snd (utf8_step s)) s # chars (drop (snd (utf8_step s)) s))"
  by pat_completeness auto
termination
  by (relation "measure length") (auto simp: utf8_step_pos)

declare chars.simps [simp del]

definition code_points :: "string \<Rightarrow> nat list" where
  "code_points s = map code_point (chars s)"

text \<open>The code points of Unicode 15 whose \<open>Numeric_Type\<close> is \<open>Digit\<close> or \<open>Decimal\<close>.\<close>

definition digit_ranges :: "(nat \<times> nat) list" where
  "digit_ranges =
   [(0x30, 0x39), (0xB2, 0xB3), (0xB9, 0xB9), (0x660, 0x669), (0x6F0, 0x6F9), (0x7C0, 0x7C9),
    (0x966, 0x96F), (0x9E6, 0x9EF), (0xA66, 0xA6F), (0xAE6, 0xAEF), (0xB66, 0xB6F), (0xBE6, 0xBEF),
    (0xC66, 0xC6F), (0xCE6, 0xCEF), (0xD66, 0xD6F), (0xDE6, 0xDEF), (0xE50, 0xE59), (0xED0, 0xED9),
    (0xF20, 0xF29), (0x1040, 0x1049), (0x1090, 0x1099), (0x1369, 0x1371), (0x17E0, 0x17E9),
    (0x1810, 0x1819), (0x1946, 0x194F), (0x19D0, 0x19DA), (0x1A80, 0x1A89), (0x1A90, 0x1A99),
    (0x1B50, 0x1B59), (0x1BB0, 0x1BB9), (0x1C40, 0x1C49), (0x1C50, 0x1C59), (0x2070, 0x2070),
    (0x2074, 0x2079), (0x2080, 0x2089), (0x2460, 0x2468), (0x2474, 0x247C), (0x2488, 0x2490),
    (0x24EA, 0x24EA), (0x24F5, 0x24FD), (0x24FF, 0x24FF), (0x2776, 0x277E), (0x2780, 0x2788),
    (0x278A, 0x2792), (0xA620, 0xA629), (0xA8D0, 0xA8D9), (0xA900, 0xA909), (0xA9D0, 0xA9D9),
    (0xA9F0, 0xA9F9), (0xAA50, 0xAA59), (0xABF0, 0xABF9), (0xFF10, 0xFF19), (0x104A0, 0x104A9),
    (0x10A40, 0x10A43), (0x10D30, 0x10D39), (0x10E60, 0x10E68), (0x11052, 0x1105A),
    (0x11066, 0x1106F), (0x110F0, 0x110F9), (0x11136, 0x1113F), (0x111D0, 0x111D9),
    (0x112F0, 0x112F9), (0x11450, 0x11459), (0x114D0, 0x114D9), (0x11650, 0x11659),
    (0x116C0, 0x116C9), (0x11730, 0x11739), (0x118E0, 0x118E9), (0x11950, 0x11959),
    (0x11C50, 0x11C59), (0x11D50, 0x11D59), (0x11DA0, 0x11DA9), (0x11F50, 0x11F59),
    (0x16A60, 0x16A69), (0x16AC0, 0x16AC9), (0x16B50, 0x16B59), (0x1D7CE, 0x1D7FF),
    (0x1E140, 0x1E149), (0x1E2F0, 0x1E2F9), (0x1E4F0, 0x1E4F9), (0x1E950, 0x1E959),
    (0x1F100, 0x1F10A), (0x1FBF0, 0x1FBF9)]"

definition is_digit_point :: "nat \<Rightarrow> bool" where
  "is_digit_point n = list_ex (\<lambda>(a, b). a \<le> n \<and> n \<le> b) digit_ranges"

definition isdigit :: "string \<Rightarrow> bool" where
  "isdigit s = (s \<noteq> [] \<and> list_all is_digit_point (code_points s))"

text \<open>\<open>len(s)\<close> and \<open>s[:n]\<close>: a continuation byte belongs to the code point before it.\<close>

definition py_len :: "string \<Rightarrow> nat" where
  "py_len s = length (filter (\<lambda>c. \<not> cont_byte c) s)"

fun take_chars :: "nat \<Rightarrow> string \<Rightarrow> string" where
  "take_chars n [] = []"
| "take_chars n (c # cs) =
     (if cont_byte c then c # take_chars n cs
      else if n = 0 then [] else c # take_chars (n - 1) cs)"

lemma py_len_take_chars: "py_len (take_chars n s) \<le> n"
  by (induction n s rule: take_chars.induct) (auto simp: py_len_def)

lemma prefix_take_chars: "prefix (take_chars n s) s"
  by (induction n s rule: take_chars.induct) auto

lemma take_chars_short: "py_len s \<le> n \<Longrightarrow> take_chars n s = s"
  by (induction n s rule: take_chars.induct) (auto simp: py_len_def split: if_splits)

section \<open>Decoding and ASCII text\<close>

definition high :: "string \<Rightarrow> bool" where
  "high s = list_all (\<lambda>c. 128 \<le> byte c) s"

lemma high_append [simp]: "high (a @ b) \<longleftrightarrow> high a \<and> high b"
  by (simp add: high_def)

lemma ascii_simps [simp]:
  "ascii []" "ascii (c # s) \<longleftrightarrow> byte c < 128 \<and> ascii s" "ascii (a @ b) \<longleftrightarrow> ascii a \<and> ascii b"
  by (simp_all add: ascii_def)

lemma second_ok_high: "second_ok b c \<Longrightarrow> 128 \<le> c"
  by (auto simp: second_ok_def split: if_splits)

lemma high_replacement: "high replacement_char"
  by (simp add: high_def replacement_char_def byte_def)

lemma utf8_step_ascii: "byte b < 128 \<Longrightarrow> utf8_step (b # bs) = (True, 1)"
  by (simp add: utf8_step.simps)

lemma utf8_step_high:
  assumes "128 \<le> byte b"
  shows "high (take (snd (utf8_step (b # bs))) (b # bs))"
proof -
  have 1: "high (take 1 (b # bs))"
    using assms by (simp add: high_def)
  have 2: "high (take 2 (b # c # cs))" if "128 \<le> byte c" for c cs
    using assms that by (simp add: high_def take_Cons')
  have 3: "high (take 3 (b # c # d # ds))" if "128 \<le> byte c" "cont_byte d" for c d ds
    using assms that by (simp add: high_def take_Cons' cont_byte_def)
  have 4: "high (take 4 (b # c # d # e # es))" if "128 \<le> byte c" "cont_byte d" "cont_byte e" for c d e es
    using assms that by (simp add: high_def take_Cons' cont_byte_def)
  have c: "cont_byte c \<Longrightarrow> 128 \<le> byte c" for c by (simp add: cont_byte_def)
  show ?thesis
    using 1 2 3 4 by (simp add: utf8_step.simps second_ok_high c split: list.split)
qed

lemma decode_Nil [simp]: "decode_replace [] = []"
  by (simp add: decode_replace.simps)

lemma decode_ascii_Cons: "byte b < 128 \<Longrightarrow> decode_replace (b # bs) = b # decode_replace bs"
  by (subst decode_replace.simps) (simp add: utf8_step_ascii)

lemma decode_high_chunk:
  assumes "128 \<le> byte b"
  shows "\<exists>u v r. b # bs = u @ r \<and> decode_replace (b # bs) = v @ decode_replace r
           \<and> u \<noteq> [] \<and> v \<noteq> [] \<and> high u \<and> high v"
proof -
  define n where "n = snd (utf8_step (b # bs))"
  define v where "v = (if fst (utf8_step (b # bs)) then take n (b # bs) else replacement_char)"
  have n: "0 < n" by (simp add: n_def utf8_step_pos)
  have u: "high (take n (b # bs))"
    unfolding n_def using assms by (rule utf8_step_high)
  have "decode_replace (b # bs) = v @ decode_replace (drop n (b # bs))"
    by (subst decode_replace.simps) (simp add: v_def n_def)
  moreover have "v \<noteq> []" "high v"
    using n u high_replacement by (auto simp: v_def replacement_char_def)
  ultimately show ?thesis
    using n u by (intro exI [of _ "take n (b # bs)"] exI [of _ v] exI [of _ "drop n (b # bs)"]) auto
qed

text \<open>Induction over the chunks the decoder works through.\<close>

lemma decode_induct:
  assumes Nil: "P [] []"
    and Ascii: "\<And>c r. byte c < 128 \<Longrightarrow> P r (decode_replace r) \<Longrightarrow> P (c # r) (c # decode_replace r)"
    and High: "\<And>u v r. u \<noteq> [] \<Longrightarrow> v \<noteq> [] \<Longrightarrow> high u \<Longrightarrow> high v \<Longrightarrow> P r (decode_replace r) \<Longrightarrow>
                 P (u @ r) (v @ decode_replace r)"
  shows "P s (decode_replace s)"
proof (induction s rule: length_induct)
  case (1 s)
  show ?case
  proof (cases s)
    case [simp]: (Cons b bs)
    show ?thesis
    proof (cases "byte b < 128")
      case True
      with 1 show ?thesis by (simp add: decode_ascii_Cons Ascii)
    next
      case False
      then obtain u v r where r: "b # bs = u @ r" "decode_replace (b # bs) = v @ decode_replace r"
        and h: "u \<noteq> []" "v \<noteq> []" "high u" "high v"
        using decode_high_chunk [of b bs] by auto
      have "length r < length s" using r(1) h(1) by (metis Cons append_eq_conv_conj length_append length_greater_0_conv less_add_same_cancel2)
      with 1 have "P r (decode_replace r)" by blast
      with h r show ?thesis by (simp add: High)
    qed
  qed (simp add: Nil)
qed

lemma not_ascii_high: "u \<noteq> [] \<Longrightarrow> high u \<Longrightarrow> \<not> ascii u"
  by (cases u) (auto simp: high_def)

lemma ascii_prefix_high: "ascii p \<Longrightarrow> u \<noteq> [] \<Longrightarrow> high u \<Longrightarrow> prefix p (u @ r) \<longleftrightarrow> p = []"
  by (cases p; cases u) (auto simp: high_def)

lemma ascii_suffix_high:
  assumes "ascii p" "high u"
  shows "suffix p (u @ r) \<longleftrightarrow> suffix p r"
proof
  assume "suffix p (u @ r)"
  then consider "suffix p r" | u' where "p = u' @ r" "suffix u' u"
    by (auto simp: suffix_append)
  then show "suffix p r"
  proof cases
    case 2
    have "high u'" using assms(2) 2(2) by (auto simp: suffix_def)
    with assms(1) 2(1) have "u' = []" using not_ascii_high by auto
    with 2 show ?thesis by simp
  qed
qed (auto simp: suffix_append)

lemma decode_prefix:
  assumes "ascii p"
  shows "prefix p (decode_replace s) \<longleftrightarrow> prefix p s"
proof -
  have "\<forall>p. ascii p \<longrightarrow> prefix p (decode_replace s) = prefix p s"
  proof (rule decode_induct [where P = "\<lambda>s d. \<forall>p. ascii p \<longrightarrow> prefix p d = prefix p s"], goal_cases)
    case (2 c r)
    then show ?case by (auto simp: prefix_Cons)
  next
    case (3 u v r)
    then show ?case by (simp add: ascii_prefix_high)
  qed simp
  with assms show ?thesis by blast
qed

lemma decode_eq_ascii:
  assumes "ascii p"
  shows "decode_replace s = p \<longleftrightarrow> s = p"
proof -
  have "\<forall>p. ascii p \<longrightarrow> (decode_replace s = p) = (s = p)"
  proof (rule decode_induct [where P = "\<lambda>s d. \<forall>p. ascii p \<longrightarrow> (d = p) = (s = p)"], goal_cases)
    case (2 c r)
    then show ?case by auto
  next
    case (3 u v r)
    then show ?case using not_ascii_high ascii_simps(3) by metis
  qed auto
  with assms show ?thesis by blast
qed

lemma decode_suffix:
  assumes "ascii p"
  shows "suffix p (decode_replace s) \<longleftrightarrow> suffix p s"
proof -
  have "suffix p (decode_replace s) = suffix p s"
  proof (rule decode_induct [where P = "\<lambda>s d. suffix p d = suffix p s"], goal_cases)
    case (2 c r)
    show ?case
    proof (cases p)
      case (Cons x q)
      with assms 2 show ?thesis
        using decode_eq_ascii [of q r] by (auto simp: suffix_Cons)
    qed simp
  next
    case (3 u v r)
    with assms show ?case by (simp add: ascii_suffix_high)
  qed simp
  then show ?thesis .
qed

lemma decode_basename:
  assumes "ascii w" "CHR ''/'' \<notin> set w"
  shows "basename (decode_replace s) = w \<longleftrightarrow> basename s = w"
  using assms by (simp add: basename_eq_iff decode_eq_ascii decode_suffix byte_def)

text \<open>Text that is ASCII already is left alone.\<close>

lemma decode_ascii: "ascii s \<Longrightarrow> decode_replace s = s"
  using decode_eq_ascii [of s s] by simp

lemma chars_ascii_Cons: "byte c < 128 \<Longrightarrow> chars (c # s) = [c] # chars s"
  by (subst chars.simps) (simp add: utf8_step_ascii)

lemma code_points_ascii: "ascii s \<Longrightarrow> code_points s = map byte s"
proof (induction s)
  case Nil
  then show ?case by (simp add: code_points_def chars.simps)
qed (simp add: code_points_def chars_ascii_Cons)

lemma digit_ranges_above_ascii: "list_all (\<lambda>(a, b). 128 \<le> a) (tl digit_ranges)"
  by (simp add: digit_ranges_def)

lemma digit_ranges_ascii: "digit_ranges = (48, 57) # tl digit_ranges"
  by (simp add: digit_ranges_def)

lemma is_digit_point_ascii:
  assumes "n < 128"
  shows "is_digit_point n \<longleftrightarrow> 48 \<le> n \<and> n \<le> 57"
proof -
  have "\<not> list_ex (\<lambda>(a, b). a \<le> n \<and> n \<le> b) (tl digit_ranges)"
    using assms digit_ranges_above_ascii by (fastforce simp: list_ex_iff list_all_iff)
  then show ?thesis
    unfolding is_digit_point_def by (subst digit_ranges_ascii) simp
qed

lemma isdigit_ascii:
  assumes "ascii s"
  shows "isdigit s \<longleftrightarrow> s \<noteq> [] \<and> list_all (\<lambda>c. 48 \<le> byte c \<and> byte c \<le> 57) s"
proof -
  have "list_all is_digit_point (map byte s) = list_all (\<lambda>c. 48 \<le> byte c \<and> byte c \<le> 57) s"
    using assms by (induction s) (simp_all add: is_digit_point_ascii)
  with assms show ?thesis by (simp add: isdigit_def code_points_ascii)
qed

end
