(* ===== verification/CgroupFs.thy ===== *)
theory CgroupFs
  imports Utf8
begin

text \<open>
  The part of cgroupfs the agent reads: the directory tree under \<open>/sys/fs/cgroup\<close>, the inode of
  each path (\<open>None\<close> where \<open>os.stat\<close> raises \<open>OSError\<close> because the directory is gone) and the state
  of each \<open>cgroup.kill\<close> file. One value of the record is the file system as one walk sees it;
  \<open>os.walk\<close> is the top-down traversal of the tree.
\<close>

datatype cgdir = Dir (dir_name: string) (subdirs: "cgdir list")

datatype kill_file = KillMissing | KillWritable | KillDenied (os_error: string)

record cgroupfs =
  fs_top :: "cgdir list"
  fs_ino :: "string \<Rightarrow> int option"
  fs_kill :: "string \<Rightarrow> kill_file"

definition cgroup_root :: string where
  "cgroup_root = ''/sys/fs/cgroup''"

definition kubepods_bases :: "string list" where
  "kubepods_bases = [''kubepods.slice'', ''kubepods'']"

text \<open>\<open>os.path.join(a, b)\<close>.\<close>

definition path_join :: "string \<Rightarrow> string \<Rightarrow> string" where
  "path_join a b =
     (if startswith b ''/'' then b
      else if a = [] \<or> endswith a ''/'' then a @ b
      else a @ ''/'' @ b)"

text \<open>The \<open>dirpath\<close> values \<open>os.walk(root)\<close> yields, in order.\<close>

fun os_walk :: "string \<Rightarrow> cgdir \<Rightarrow> string list" where
  "os_walk dirpath (Dir name ds) =
     dirpath # concat (map (\<lambda>d. os_walk (path_join dirpath (dir_name d)) d) ds)"

definition top_dir :: "cgroupfs \<Rightarrow> string \<Rightarrow> cgdir option" where
  "top_dir fs base = find (\<lambda>d. dir_name d = base) (fs_top fs)"

text \<open>
  The directories below one top-level name: none when \<open>os.path.isdir\<close> says it is not there,
  else all that the walk yields.
\<close>

definition walk_base :: "cgroupfs \<Rightarrow> string \<Rightarrow> string list" where
  "walk_base fs base =
     (case top_dir fs base of None \<Rightarrow> [] | Some d \<Rightarrow> os_walk (path_join cgroup_root base) d)"

definition host_top_level :: "string list" where
  "host_top_level = [''system.slice'', ''init.scope'', ''user.slice'', ''dev-hugepages.mount'']"

definition pod_paths :: "cgroupfs \<Rightarrow> string list" where
  "pod_paths fs = concat (map (walk_base fs) kubepods_bases)"

definition host_paths :: "cgroupfs \<Rightarrow> string list" where
  "host_paths fs = concat (map (walk_base fs) host_top_level)"

lemma path_join_slash:
  "\<not> startswith b ''/'' \<Longrightarrow> a \<noteq> [] \<Longrightarrow> \<not> endswith a ''/'' \<Longrightarrow> path_join a b = a @ ''/'' @ b"
  by (simp add: path_join_def)

lemma os_walk_root: "dirpath \<in> set (os_walk dirpath d)"
  by (cases d) simp

lemma walk_base_bounded:
  "top_dir fs base = None \<Longrightarrow> walk_base fs base = []"
  by (simp add: walk_base_def)

end
