(* ===== verification/Resolver.thy ===== *)
theory Resolver
  imports CgroupFs
begin

text \<open>
  \<open>core/pod_resolver.py\<close>: from the inode of a cgroup to its path, from the path to the pod's
  UID, from the UID to the pod's namespace, name and owner, with the resolver's caches.

  The Kubernetes API is not part of the repository. \<open>core_v1\<close> is a parameter: \<open>None\<close> for the
  agent without API access, else the sequence of replies to the successive
  \<open>list_pod_for_all_namespaces\<close> calls, each a list of pods or an exception; every call has the same
  field selector, the node's name, so the selector and \<open>node_name\<close> are part of that parameter. The
  state counts the calls made, so that a lemma can say when a cache saved one.
\<close>

section \<open>The state\<close>

record pod =
  pod_namespace :: string
  pod_name :: string
  pod_uid :: string
  pod_owner_references :: "(string \<times> string) list option"

type_synonym pod_api = "nat \<Rightarrow> pod list result"

record resolver =
  path_cache :: "(int \<times> string) list"
  pod_cache :: "(string \<times> string \<times> string) list"
  owner_cache :: "(string \<times> string) list"
  not_in_kubepods :: "int list"
  api_calls :: nat

definition new_resolver :: resolver where
  "new_resolver = \<lparr>path_cache = [], pod_cache = [], owner_cache = [], not_in_kubepods = [], api_calls = 0\<rparr>"

section \<open>Inode to path\<close>

fun search_dirs :: "(string \<Rightarrow> int option) \<Rightarrow> int \<Rightarrow> string list \<Rightarrow> string option" where
  "search_dirs ino cgroup_id [] = None"
| "search_dirs ino cgroup_id (dirpath # rest) =
     (case ino dirpath of
        None \<Rightarrow> search_dirs ino cgroup_id rest
      | Some i \<Rightarrow> if i = cgroup_id then Some dirpath else search_dirs ino cgroup_id rest)"

fun search_bases :: "cgroupfs \<Rightarrow> int \<Rightarrow> string list \<Rightarrow> string option" where
  "search_bases fs cgroup_id [] = None"
| "search_bases fs cgroup_id (base # bases) =
     (case search_dirs (fs_ino fs) cgroup_id (walk_base fs base) of
        Some dirpath \<Rightarrow> Some dirpath
      | None \<Rightarrow> search_bases fs cgroup_id bases)"

definition find_cgroup_path :: "cgroupfs \<Rightarrow> int \<Rightarrow> resolver \<Rightarrow> string option \<times> resolver" where
  "find_cgroup_path fs cgroup_id r =
     (case map_of (path_cache r) cgroup_id of
        Some path \<Rightarrow> (Some path, r)
      | None \<Rightarrow>
          (case search_bases fs cgroup_id kubepods_bases of
             Some dirpath \<Rightarrow>
               (Some dirpath, r\<lparr>path_cache := dict_set (path_cache r) cgroup_id dirpath\<rparr>)
           | None \<Rightarrow> (None, r)))"

definition is_pod_cgroup :: "cgroupfs \<Rightarrow> int \<Rightarrow> resolver \<Rightarrow> bool \<times> resolver" where
  "is_pod_cgroup fs cgroup_id r =
     (if map_of (path_cache r) cgroup_id \<noteq> None then (True, r)
      else if cgroup_id \<in> set (not_in_kubepods r) then (False, r)
      else
        (let (path, r) = find_cgroup_path fs cgroup_id r
         in if path \<noteq> None then (True, r)
            else (False, r\<lparr>not_in_kubepods := List.insert cgroup_id (not_in_kubepods r)\<rparr>)))"

section \<open>Path to UID\<close>

text \<open>
  The two regular expressions: the literal \<open>pod\<close>, then groups of 8, 4, 4, 4 and 12 lower-case
  hexadecimal digits with one separator between them. \<open>search\<close> takes the leftmost match.
\<close>

definition is_hex :: "char \<Rightarrow> bool" where
  "is_hex c = (c \<in> set ''0123456789abcdef'')"

definition uid_groups :: "nat list" where
  "uid_groups = [8, 4, 4, 4, 12]"

fun match_field :: "nat \<Rightarrow> string \<Rightarrow> (string \<times> string) option" where
  "match_field 0 s = Some ([], s)"
| "match_field (Suc n) [] = None"
| "match_field (Suc n) (c # cs) =
     (if is_hex c then map_option (\<lambda>(f, rest). (c # f, rest)) (match_field n cs) else None)"

fun match_fields :: "char \<Rightarrow> nat list \<Rightarrow> string \<Rightarrow> string option" where
  "match_fields sep [] s = Some []"
| "match_fields sep [n] s = map_option fst (match_field n s)"
| "match_fields sep (n # m # ns) s =
     (case match_field n s of
        None \<Rightarrow> None
      | Some (f, []) \<Rightarrow> None
      | Some (f, c # rest) \<Rightarrow>
          (if c = sep then map_option (\<lambda>t. f @ sep # t) (match_fields sep (m # ns) rest)
           else None))"

definition match_pod_uid :: "char \<Rightarrow> string \<Rightarrow> string option" where
  "match_pod_uid sep s =
     (if startswith s ''pod'' then match_fields sep uid_groups (drop 3 s) else None)"

fun re_search :: "char \<Rightarrow> string \<Rightarrow> string option" where
  "re_search sep [] = None"
| "re_search sep (c # cs) =
     (case match_pod_uid sep (c # cs) of Some g \<Rightarrow> Some g | None \<Rightarrow> re_search sep cs)"

text \<open>\<open>s.replace("_", "-")\<close>.\<close>

definition dashed :: "string \<Rightarrow> string" where
  "dashed s = map (\<lambda>c. if c = CHR ''_'' then CHR ''-'' else c) s"

definition extract_pod_uid :: "string \<Rightarrow> string option" where
  "extract_pod_uid cgroup_path =
     (case re_search (CHR ''_'') cgroup_path of
        Some g \<Rightarrow> Some (dashed g)
      | None \<Rightarrow> re_search (CHR ''-'') cgroup_path)"

section \<open>UID to pod and owner\<close>

definition strip_hash :: "string \<Rightarrow> string" where
  "strip_hash name =
     (let parts = rsplit1 (CHR ''-'') name
      in if length parts = 2 \<and> 5 \<le> py_len (parts ! 1) then parts ! 0 else name)"

definition extract_owner :: "pod \<Rightarrow> string" where
  "extract_owner p =
     (let ns = pod_namespace p;
          refs = (case pod_owner_references p of None \<Rightarrow> [] | Some refs \<Rightarrow> refs)
      in case refs of
           [] \<Rightarrow> ns @ ''/'' @ pod_name p
         | (kind, name) # _ \<Rightarrow>
             ns @ ''/'' @ kind @ ''/'' @ (if kind = ''ReplicaSet'' then strip_hash name else name))"

fun fill_caches ::
    "pod list \<Rightarrow> string \<Rightarrow> (string \<times> string) option \<Rightarrow> resolver \<Rightarrow> (string \<times> string) option \<times> resolver" where
  "fill_caches [] uid res r = (res, r)"
| "fill_caches (p # ps) uid res r =
     fill_caches ps uid
       (if pod_uid p = uid then Some (pod_namespace p, pod_name p) else res)
       (r\<lparr>pod_cache := dict_set (pod_cache r) (pod_uid p) (pod_namespace p, pod_name p),
          owner_cache := dict_set (owner_cache r) (pod_uid p) (extract_owner p)\<rparr>)"

definition lookup_pod ::
    "pod_api option \<Rightarrow> string \<Rightarrow> resolver \<Rightarrow> (string \<times> string) option result \<times> resolver" where
  "lookup_pod core_v1 uid r =
     (case map_of (pod_cache r) uid of
        Some entry \<Rightarrow> (Inr (Some entry), r)
      | None \<Rightarrow>
          (case core_v1 of
             None \<Rightarrow> (Inr None, r)
           | Some api \<Rightarrow>
               (let reply = api (api_calls r); r = r\<lparr>api_calls := Suc (api_calls r)\<rparr>
                in case reply of
                     Inl e \<Rightarrow> (Inl e, r)
                   | Inr pods \<Rightarrow> (let (res, r) = fill_caches pods uid None r in (Inr res, r)))))"

definition owner_of ::
    "pod_api option \<Rightarrow> cgroupfs \<Rightarrow> int \<Rightarrow> resolver \<Rightarrow> string option result \<times> resolver" where
  "owner_of core_v1 fs cgroup_id r =
     (case find_cgroup_path fs cgroup_id r of
        (None, r) \<Rightarrow> (Inr None, r)
      | (Some path, r) \<Rightarrow>
          (case extract_pod_uid path of
             None \<Rightarrow> (Inr None, r)
           | Some uid \<Rightarrow>
               (if map_of (owner_cache r) uid \<noteq> None then (Inr (map_of (owner_cache r) uid), r)
                else case lookup_pod core_v1 uid r of
                       (Inl e, r) \<Rightarrow> (Inl e, r)
                     | (Inr _, r) \<Rightarrow> (Inr (map_of (owner_cache r) uid), r))))"

definition resolve ::
    "pod_api option \<Rightarrow> cgroupfs \<Rightarrow> int \<Rightarrow> resolver \<Rightarrow> (string \<times> string) option result \<times> resolver" where
  "resolve core_v1 fs cgroup_id r =
     (case find_cgroup_path fs cgroup_id r of
        (None, r) \<Rightarrow> (Inr None, r)
      | (Some path, r) \<Rightarrow>
          (case extract_pod_uid path of
             None \<Rightarrow> (Inr None, r)
           | Some uid \<Rightarrow> lookup_pod core_v1 uid r))"

section \<open>A cached lookup\<close>

text \<open>
  What the resolver's clients rely on: a cached key is answered from the cache with no effect,
  and a successful answer is cached. Hence asking again gives the same answer for free.
\<close>

locale cached_lookup =
  fixes lookup :: "'k \<Rightarrow> 's \<Rightarrow> 'v option result \<times> 's"
    and cached :: "'s \<Rightarrow> 'k \<Rightarrow> 'v option"
  assumes hit: "cached s k = Some v \<Longrightarrow> lookup k s = (Inr (Some v), s)"
    and stored: "lookup k s = (Inr (Some v), s') \<Longrightarrow> cached s' k = Some v"
begin

lemma again: "lookup k s = (Inr (Some v), s') \<Longrightarrow> lookup k s' = (Inr (Some v), s')"
  by (rule hit) (rule stored)

lemma miss: "lookup k s = (Inr None, s') \<Longrightarrow> cached s k = None"
  by (cases "cached s k") (auto dest: hit)

lemma failure: "lookup k s = (Inl e, s') \<Longrightarrow> cached s k = None"
  by (cases "cached s k") (auto dest: hit)

end

definition find_path_lookup :: "cgroupfs \<Rightarrow> int \<Rightarrow> resolver \<Rightarrow> string option result \<times> resolver" where
  "find_path_lookup fs k r = (let (p, r) = find_cgroup_path fs k r in (Inr p, r))"

lemma fill_caches_result:
  "map_of (pod_cache r) uid = res \<or> res = None \<Longrightarrow> fill_caches ps uid res r = (Some v, r') \<Longrightarrow>
     map_of (pod_cache r') uid = Some v"
  by (induction ps uid res r rule: fill_caches.induct) (auto split: if_splits)

lemma fill_caches_found:
  "fill_caches ps uid None r = (Some v, r') \<Longrightarrow> map_of (pod_cache r') uid = Some v"
  using fill_caches_result [of r uid None ps v r'] by simp

interpretation path_lookup: cached_lookup "find_path_lookup fs" "\<lambda>r. map_of (path_cache r)" for fs
  by unfold_locales
    (auto simp: find_path_lookup_def find_cgroup_path_def split: option.splits)

interpretation pod_lookup: cached_lookup "lookup_pod core_v1" "\<lambda>r. map_of (pod_cache r)" for core_v1
  by unfold_locales
    (auto simp: lookup_pod_def Let_def dest!: fill_caches_found
      split: option.splits sum.splits prod.splits)

section \<open>Caches\<close>

lemma find_cgroup_path_frame [frame]:
  "pod_cache (snd (find_cgroup_path fs c r)) = pod_cache r"
  "owner_cache (snd (find_cgroup_path fs c r)) = owner_cache r"
  "not_in_kubepods (snd (find_cgroup_path fs c r)) = not_in_kubepods r"
  "api_calls (snd (find_cgroup_path fs c r)) = api_calls r"
  by (auto simp: find_cgroup_path_def split: option.splits)

lemma fill_caches_frame [frame]:
  "path_cache (snd (fill_caches ps uid res r)) = path_cache r"
  "not_in_kubepods (snd (fill_caches ps uid res r)) = not_in_kubepods r"
  "api_calls (snd (fill_caches ps uid res r)) = api_calls r"
  by (induction ps uid res r rule: fill_caches.induct) simp_all

lemma lookup_pod_frame [frame]:
  "path_cache (snd (lookup_pod core uid r)) = path_cache r"
  "not_in_kubepods (snd (lookup_pod core uid r)) = not_in_kubepods r"
  by (auto simp: lookup_pod_def Let_def split_beta frame split: option.splits sum.splits)

lemma find_cgroup_path_cached:
  "map_of (path_cache r) c = Some p \<Longrightarrow> find_cgroup_path fs c r = (Some p, r)"
  by (simp add: find_cgroup_path_def)

lemma find_cgroup_path_stores:
  "find_cgroup_path fs c r = (Some p, r') \<Longrightarrow> map_of (path_cache r') c = Some p"
  using path_lookup.stored [of fs c r p r'] by (simp add: find_path_lookup_def)

lemma find_cgroup_path_keeps:
  "map_of (path_cache r) c = Some p \<Longrightarrow> map_of (path_cache (snd (find_cgroup_path fs c' r))) c = Some p"
  by (auto simp: find_cgroup_path_def split: option.splits)

lemma is_pod_cgroup_eq:
  "is_pod_cgroup fs c r =
     (if map_of (path_cache r) c \<noteq> None then (True, r)
      else if c \<in> set (not_in_kubepods r) then (False, r)
      else case search_bases fs c kubepods_bases of
        Some dirpath \<Rightarrow> (True, r\<lparr>path_cache := dict_set (path_cache r) c dirpath\<rparr>)
      | None \<Rightarrow> (False, r\<lparr>not_in_kubepods := List.insert c (not_in_kubepods r)\<rparr>))"
  by (simp add: is_pod_cgroup_def find_cgroup_path_def split: option.split)

lemma is_pod_cgroup_True:
  "is_pod_cgroup fs c r = (True, r') \<Longrightarrow> \<exists>p. map_of (path_cache r') c = Some p"
  by (auto simp: is_pod_cgroup_eq split: if_splits option.splits)

lemma is_pod_cgroup_False:
  "is_pod_cgroup fs c r = (False, r') \<Longrightarrow>
     map_of (path_cache r') c = None \<and> c \<in> set (not_in_kubepods r')"
  by (auto simp: is_pod_cgroup_eq split: if_splits option.splits)

lemma is_pod_cgroup_again:
  assumes "is_pod_cgroup fs c r = (b, r')"
  shows "is_pod_cgroup fs' c r' = (b, r')"
proof (cases b)
  case True
  with assms have "is_pod_cgroup fs c r = (True, r')" by simp
  then obtain p where "map_of (path_cache r') c = Some p"
    using is_pod_cgroup_True by blast
  with True show ?thesis by (simp add: is_pod_cgroup_eq)
next
  case False
  with assms have "is_pod_cgroup fs c r = (False, r')" by simp
  then have "map_of (path_cache r') c = None \<and> c \<in> set (not_in_kubepods r')"
    by (rule is_pod_cgroup_False)
  with False show ?thesis by (simp add: is_pod_cgroup_eq)
qed

text \<open>Both pod caches are always filled together.\<close>

definition caches_agree :: "resolver \<Rightarrow> bool" where
  "caches_agree r = (fst ` set (pod_cache r) = fst ` set (owner_cache r))"

lemma caches_agree_new: "caches_agree new_resolver"
  by (simp add: caches_agree_def new_resolver_def)

lemma caches_agree_fill: "caches_agree r \<Longrightarrow> caches_agree (snd (fill_caches ps uid res r))"
  by (induction ps uid res r rule: fill_caches.induct) (simp_all add: caches_agree_def fst_set_dict_set)

lemma caches_agree_find: "caches_agree r \<Longrightarrow> caches_agree (snd (find_cgroup_path fs c r))"
  by (simp add: caches_agree_def frame)

lemma caches_agree_lookup: "caches_agree r \<Longrightarrow> caches_agree (snd (lookup_pod core uid r))"
  using caches_agree_fill by (auto simp: lookup_pod_def Let_def split_beta caches_agree_def
      split: option.splits sum.splits)

lemma caches_agree_resolve: "caches_agree r \<Longrightarrow> caches_agree (snd (resolve core fs c r))"
  using caches_agree_find [of r fs c] caches_agree_lookup [of "snd (find_cgroup_path fs c r)" core]
  by (auto simp: resolve_def split_beta split: option.split)

lemma caches_agree_owner: "caches_agree r \<Longrightarrow> caches_agree (snd (owner_of core fs c r))"
  using caches_agree_find [of r fs c] caches_agree_lookup [of "snd (find_cgroup_path fs c r)" core]
  by (auto simp: owner_of_def split_beta split: option.split sum.split)

lemma caches_agree_is_pod: "caches_agree r \<Longrightarrow> caches_agree (snd (is_pod_cgroup fs c r))"
  by (auto simp: is_pod_cgroup_eq caches_agree_def split: option.split)

lemma in_cache_iff: "map_of d k \<noteq> None \<longleftrightarrow> k \<in> fst ` set d"
  by (simp add: map_of_eq_None_iff)

lemma caches_agree_owner_known:
  "caches_agree r \<Longrightarrow> map_of (pod_cache r) uid = Some v \<Longrightarrow> \<exists>ow. map_of (owner_cache r) uid = Some ow"
  using in_cache_iff [of "pod_cache r" uid] in_cache_iff [of "owner_cache r" uid]
  by (auto simp: caches_agree_def)

section \<open>UIDs\<close>

definition valid_uid :: "string \<Rightarrow> bool" where
  "valid_uid u = (match_fields (CHR ''-'') uid_groups u = Some u)"

definition underscored :: "string \<Rightarrow> string" where
  "underscored s = map (\<lambda>c. if c = CHR ''-'' then CHR ''_'' else c) s"

lemma match_field_split:
  "match_field n s = Some (f, rest) \<Longrightarrow> s = f @ rest \<and> length f = n \<and> list_all is_hex f"
  by (induction n s arbitrary: f rest rule: match_field.induct) (auto split: if_splits)

lemma match_field_intro:
  "length f = n \<Longrightarrow> list_all is_hex f \<Longrightarrow> match_field n (f @ rest) = Some (f, rest)"
  by (induction f arbitrary: n) auto

text \<open>A match does not depend on what follows it, and renaming the separator renames the match.\<close>

lemma map_hex_id:
  assumes "\<And>c. is_hex c \<Longrightarrow> f c = c" "list_all is_hex s"
  shows "map f s = s"
  using assms by (induction s) auto

lemma match_fields_step:
  "match_fields sep (n # m # ns) s = Some t \<longleftrightarrow>
     (\<exists>w rest u. match_field n s = Some (w, sep # rest) \<and>
        match_fields sep (m # ns) rest = Some u \<and> t = w @ sep # u)"
  by (auto split: option.splits list.splits)

lemma match_fields_rename:
  assumes "match_fields sep ns s = Some t" "\<And>c. is_hex c \<Longrightarrow> f c = c"
  shows "match_fields (f sep) ns (map f s @ suff) = Some (map f t)"
  using assms(1)
proof (induction sep ns s arbitrary: t rule: match_fields.induct)
  case (2 sep n s)
  then obtain r where m: "match_field n s = Some (t, r)" by auto
  from match_field_split [OF m] map_hex_id [of f t] assms(2)
  have "map f s @ suff = t @ (map f r @ suff)" "map f t = t" by auto
  with match_field_split [OF m] match_field_intro [of t n "map f r @ suff"] show ?case by simp
next
  case (3 sep n m ns s)
  then obtain w rest u where w: "match_field n s = Some (w, sep # rest)"
    and u: "match_fields sep (m # ns) rest = Some u" "t = w @ sep # u"
    unfolding match_fields_step by blast
  from "3.IH" [OF w refl refl refl u(1)]
  have IH: "match_fields (f sep) (m # ns) (map f rest @ suff) = Some (map f u)" .
  from match_field_split [OF w] map_hex_id [of f w] assms(2)
  have "map f s @ suff = w @ (f sep # map f rest @ suff)" "map f w = w" by auto
  with match_field_split [OF w] match_field_intro [of w n "f sep # map f rest @ suff"] IH u
  show ?case unfolding match_fields_step by auto
qed simp

lemma match_fields_self:
  assumes "match_fields sep ns s = Some t"
  shows "match_fields sep ns t = Some t \<and> (\<exists>r. s = t @ r)"
  using assms
proof (induction sep ns s arbitrary: t rule: match_fields.induct)
  case (2 sep n s)
  then obtain r where m: "match_field n s = Some (t, r)" by auto
  from match_field_split [OF m] have s: "s = t @ r" and t: "length t = n" "list_all is_hex t"
    by simp_all
  from match_field_intro [OF t, of "[]"] s show ?case by simp
next
  case (3 sep n m ns s)
  then obtain w rest u where w: "match_field n s = Some (w, sep # rest)"
    and u: "match_fields sep (m # ns) rest = Some u" "t = w @ sep # u"
    unfolding match_fields_step by blast
  from match_field_split [OF w] have s: "s = w @ sep # rest" and t: "length w = n" "list_all is_hex w"
    by simp_all
  from "3.IH" [OF w refl refl refl u(1)] obtain r
    where "match_fields sep (m # ns) u = Some u" "rest = u @ r" by blast
  with match_field_intro [OF t, of "sep # u"] s u(2) show ?case
    unfolding match_fields_step by auto
qed simp

lemma hex_not_sep: "is_hex c \<Longrightarrow> c \<noteq> CHR ''_'' \<and> c \<noteq> CHR ''-''"
  by (auto simp: is_hex_def)

lemma sep_not_hex [simp]: "\<not> is_hex (CHR ''_'')" "\<not> is_hex (CHR ''-'')"
  by (simp_all add: is_hex_def)

lemma match_pod_uid_valid:
  "match_pod_uid (CHR ''-'') s = Some u \<Longrightarrow> valid_uid u"
  "match_pod_uid (CHR ''_'') s = Some u \<Longrightarrow> valid_uid (dashed u)"
proof -
  show "match_pod_uid (CHR ''-'') s = Some u \<Longrightarrow> valid_uid u"
    by (auto simp: match_pod_uid_def valid_uid_def dest: match_fields_self split: if_splits)
  assume "match_pod_uid (CHR ''_'') s = Some u"
  then have "match_fields (CHR ''_'') uid_groups u = Some u"
    by (auto simp: match_pod_uid_def dest: match_fields_self split: if_splits)
  from match_fields_rename [OF this, of "\<lambda>c. if c = CHR ''_'' then CHR ''-'' else c" "[]"]
  show "valid_uid (dashed u)" by (simp add: valid_uid_def dashed_def hex_not_sep)
qed

lemma re_search_match: "re_search sep s = Some g \<Longrightarrow> \<exists>s'. match_pod_uid sep s' = Some g"
  by (induction sep s rule: re_search.induct) (auto split: option.splits)

lemma re_search_hit: "match_pod_uid sep s = Some g \<Longrightarrow> s \<noteq> [] \<Longrightarrow> re_search sep s = Some g"
  by (cases s) auto

lemma re_search_miss: "match_pod_uid sep (c # cs) = None \<Longrightarrow> re_search sep (c # cs) = re_search sep cs"
  by simp

declare re_search.simps(2) [simp del]

text \<open>Steps of the search over text where no match can start.\<close>

lemma re_search_skip:
  "\<not> startswith (c # cs) ''pod'' \<Longrightarrow> re_search sep (c # cs) = re_search sep cs"
  by (simp add: re_search_miss match_pod_uid_def)

lemma re_search_skip_pod:
  "\<not> is_hex c \<Longrightarrow> re_search sep (CHR ''p'' # CHR ''o'' # CHR ''d'' # c # cs)
     = re_search sep (CHR ''o'' # CHR ''d'' # c # cs)"
  by (rule re_search_miss) (simp add: match_pod_uid_def startswith_def uid_groups_def numeral_eq_Suc)

lemmas re_search_eval = re_search_skip re_search_skip_pod re_search_hit re_search_miss
  match_pod_uid_def startswith_def uid_groups_def numeral_eq_Suc is_hex_def

lemma match_fields_chars:
  "match_fields sep ns s = Some t \<Longrightarrow> list_all (\<lambda>c. is_hex c \<or> c = sep) t"
proof (induction sep ns s arbitrary: t rule: match_fields.induct)
  case (2 sep n s)
  then obtain r where "match_field n s = Some (t, r)" by auto
  from match_field_split [OF this] show ?case by (auto simp: list_all_iff)
next
  case (3 sep n m ns s)
  then obtain w rest u where w: "match_field n s = Some (w, sep # rest)"
    and u: "match_fields sep (m # ns) rest = Some u" "t = w @ sep # u"
    unfolding match_fields_step by blast
  from "3.IH" [OF w refl refl refl u(1)] match_field_split [OF w] u(2)
  show ?case by (auto simp: list_all_iff)
qed simp

lemma dashed_underscored:
  assumes "valid_uid u"
  shows "dashed (underscored u) = u"
proof -
  have "list_all (\<lambda>c. is_hex c \<or> c = CHR ''-'') u"
    using assms unfolding valid_uid_def by (rule match_fields_chars)
  then show ?thesis
    by (induction u) (auto simp: dashed_def underscored_def hex_not_sep)
qed

lemma match_underscored:
  assumes "valid_uid u"
  shows "match_pod_uid (CHR ''_'') (''pod'' @ underscored u @ rest) = Some (underscored u)"
proof -
  have "match_fields (CHR ''-'') uid_groups u = Some u" using assms by (simp add: valid_uid_def)
  from match_fields_rename [OF this, of "\<lambda>c. if c = CHR ''-'' then CHR ''_'' else c" rest]
  show ?thesis by (simp add: match_pod_uid_def startswith_def underscored_def hex_not_sep)
qed

text \<open>The three places a pod's slice has in the cgroup tree, by QoS class.\<close>

definition pod_slice_prefixes :: "string list" where
  "pod_slice_prefixes =
     [''/sys/fs/cgroup/kubepods.slice/kubepods-burstable.slice/kubepods-burstable-'',
      ''/sys/fs/cgroup/kubepods.slice/kubepods-besteffort.slice/kubepods-besteffort-'',
      ''/sys/fs/cgroup/kubepods.slice/kubepods-'']"

lemma re_search_slice:
  "pre \<in> set pod_slice_prefixes \<Longrightarrow> re_search sep (pre @ s) = re_search sep s"
  unfolding pod_slice_prefixes_def
  by (auto simp: re_search_skip startswith_def re_search_skip_pod is_hex_def)

section \<open>Successive lookups\<close>

lemma resolve_found:
  assumes "resolve core fs c r = (Inr (Some v), r')"
  obtains path uid where "map_of (path_cache r') c = Some path" "extract_pod_uid path = Some uid"
    "map_of (pod_cache r') uid = Some v"
proof -
  obtain path r1 where p: "find_cgroup_path fs c r = (Some path, r1)"
    using assms by (auto simp: resolve_def split: prod.splits option.splits)
  with assms obtain uid where u: "extract_pod_uid path = Some uid"
    and l: "lookup_pod core uid r1 = (Inr (Some v), r')"
    by (auto simp: resolve_def split: option.splits)
  have "map_of (path_cache r1) c = Some path" using p by (rule find_cgroup_path_stores)
  moreover have "path_cache r' = path_cache r1"
    using lookup_pod_frame(1) [of core uid r1] by (simp add: l)
  ultimately show thesis using u pod_lookup.stored [OF l] that by simp
qed

lemma resolve_cached:
  assumes "map_of (path_cache r) c = Some path" "extract_pod_uid path = Some uid"
    "map_of (pod_cache r) uid = Some v"
  shows "resolve core fs c r = (Inr (Some v), r)"
  using assms by (simp add: resolve_def find_cgroup_path_cached lookup_pod_def)

lemma owner_of_cached:
  assumes "map_of (path_cache r) c = Some path" "extract_pod_uid path = Some uid"
    "map_of (owner_cache r) uid = Some ow"
  shows "owner_of core fs c r = (Inr (Some ow), r)"
  using assms by (simp add: owner_of_def find_cgroup_path_cached)

lemma lookup_uncached_failure:
  "lookup_pod core uid r = (Inl e, r') \<Longrightarrow> \<exists>api. core = Some api \<and> api (api_calls r) = Inl e"
  by (auto simp: lookup_pod_def Let_def split: option.splits sum.splits prod.splits)

section \<open>Properties\<close>

text \<open>C37. The UID that the container runtime writes into a pod's slice name is read back
  unchanged: for every well-formed UID, under each QoS class and whatever follows in the path,
  extracting from the path with the dashes replaced by underscores returns the UID.\<close>
theorem pod_uid_roundtrip:
  assumes "valid_uid u" and "pre \<in> set pod_slice_prefixes"
  shows "extract_pod_uid (pre @ ''pod'' @ underscored u @ rest) = Some u"
proof -
  have "re_search (CHR ''_'') (pre @ ''pod'' @ underscored u @ rest) = Some (underscored u)"
    using match_underscored [OF assms(1), of rest]
    by (simp only: re_search_slice [OF assms(2)]) (rule re_search_hit, simp_all)
  then show ?thesis by (simp add: extract_pod_uid_def dashed_underscored [OF assms(1)])
qed

text \<open>Witness of C37: the slice of the resolver's own documentation.\<close>
theorem pod_uid_roundtrip_witness:
  "extract_pod_uid
     (''/sys/fs/cgroup/kubepods.slice/kubepods-burstable.slice/kubepods-burstable-pod775d7ebb_eae8_4b34_b3cf_ee1b0f8b6ea4.slice/cri-containerd-18bb1366.scope'')
   = Some ''775d7ebb-eae8-4b34-b3cf-ee1b0f8b6ea4''"
proof -
  have "valid_uid ''775d7ebb-eae8-4b34-b3cf-ee1b0f8b6ea4''"
    by (simp add: valid_uid_def uid_groups_def numeral_eq_Suc is_hex_def)
  from pod_uid_roundtrip [OF this, of "hd pod_slice_prefixes" "''.slice/cri-containerd-18bb1366.scope''"]
  show ?thesis by (simp add: pod_slice_prefixes_def underscored_def)
qed

text \<open>Whatever the path, an extracted UID is well formed: five groups of 8, 4, 4, 4 and 12
  hexadecimal digits joined by dashes.\<close>
lemma extracted_uid_valid:
  assumes "extract_pod_uid path = Some u"
  shows "valid_uid u"
  using assms
  by (auto simp: extract_pod_uid_def split: option.splits dest!: re_search_match intro: match_pod_uid_valid)

text \<open>An instance: a path whose UID is written with dashes, as cgroup v1 does.\<close>
lemma extracted_uid_valid_instance:
  "\<exists>u. extract_pod_uid ''/kubepods/pod775d7ebb-eae8-4b34-b3cf-ee1b0f8b6ea4'' = Some u \<and> valid_uid u"
proof -
  have "extract_pod_uid ''/kubepods/pod775d7ebb-eae8-4b34-b3cf-ee1b0f8b6ea4''
      = Some ''775d7ebb-eae8-4b34-b3cf-ee1b0f8b6ea4''"
    by (simp add: extract_pod_uid_def re_search_eval)
  with extracted_uid_valid [OF this] show ?thesis by blast
qed

text \<open>A resolved container stays resolved: once a cgroup has been matched to a pod, asking
  again returns the same pod and changes nothing, whatever the file system and the API now say;
  no further API call is made.\<close>
lemma resolve_stable:
  assumes "resolve core fs c r = (Inr (Some v), r')"
  shows "resolve core' fs' c r' = (Inr (Some v), r')"
  by (rule resolve_found [OF assms]) (rule resolve_cached)

definition demo_fs :: cgroupfs where
  "demo_fs = \<lparr>fs_top = [Dir ''kubepods'' [Dir ''pod775d7ebb-eae8-4b34-b3cf-ee1b0f8b6ea4'' []]],
     fs_ino = (\<lambda>p. if p = ''/sys/fs/cgroup/kubepods/pod775d7ebb-eae8-4b34-b3cf-ee1b0f8b6ea4''
                  then Some 108000 else Some 1),
     fs_kill = (\<lambda>p. KillWritable)\<rparr>"

definition demo_pod :: "string \<Rightarrow> pod" where
  "demo_pod ns = \<lparr>pod_namespace = ns, pod_name = ''attacker'',
     pod_uid = ''775d7ebb-eae8-4b34-b3cf-ee1b0f8b6ea4'', pod_owner_references = None\<rparr>"

definition demo_api :: "string \<Rightarrow> pod_api" where
  "demo_api ns n = Inr [demo_pod ns]"

definition demo_resolved :: "string \<Rightarrow> resolver" where
  "demo_resolved ns = \<lparr>path_cache = [(108000, ''/sys/fs/cgroup/kubepods/pod775d7ebb-eae8-4b34-b3cf-ee1b0f8b6ea4'')],
     pod_cache = [(''775d7ebb-eae8-4b34-b3cf-ee1b0f8b6ea4'', ns, ''attacker'')],
     owner_cache = [(''775d7ebb-eae8-4b34-b3cf-ee1b0f8b6ea4'', ns @ ''/attacker'')],
     not_in_kubepods = [], api_calls = 1\<rparr>"

lemma demo_find:
  "search_bases demo_fs 108000 kubepods_bases
     = Some ''/sys/fs/cgroup/kubepods/pod775d7ebb-eae8-4b34-b3cf-ee1b0f8b6ea4''"
  by (simp add: kubepods_bases_def demo_fs_def walk_base_def top_dir_def path_join_def
      cgroup_root_def startswith_def endswith_def)

lemma demo_uid:
  "extract_pod_uid ''/sys/fs/cgroup/kubepods/pod775d7ebb-eae8-4b34-b3cf-ee1b0f8b6ea4''
     = Some ''775d7ebb-eae8-4b34-b3cf-ee1b0f8b6ea4''"
  by (simp add: extract_pod_uid_def re_search_eval)

lemma demo_resolve:
  "resolve (Some (demo_api ns)) demo_fs 108000 new_resolver = (Inr (Some (ns, ''attacker'')), demo_resolved ns)"
  by (simp add: resolve_def find_cgroup_path_def new_resolver_def demo_find demo_uid lookup_pod_def
      demo_api_def demo_pod_def extract_owner_def demo_resolved_def)

text \<open>An instance: the second lookup of a pod on a node whose API server has become
  unreachable.\<close>
lemma resolve_stable_instance:
  "resolve (Some (demo_api ''default'')) demo_fs 108000 new_resolver
     = (Inr (Some (''default'', ''attacker'')), demo_resolved ''default'') \<and>
   resolve (Some (\<lambda>n. Inl (ApiError 503))) demo_fs 108000 (demo_resolved ''default'')
     = (Inr (Some (''default'', ''attacker'')), demo_resolved ''default'')"
  using resolve_stable [OF demo_resolve] demo_resolve by blast

text \<open>C38. Repeat counting survives a rollout: two pods of one deployment, owned by ReplicaSets whose
  names differ only in a hash of at least five characters without a dash, have the same owner.\<close>
theorem owner_survives_rollout:
  assumes "pod_owner_references p = Some ((''ReplicaSet'', app @ ''-'' @ h) # refs)"
    and "pod_owner_references p' = Some ((''ReplicaSet'', app @ ''-'' @ h') # refs')"
    and "CHR ''-'' \<notin> set h" and "CHR ''-'' \<notin> set h'"
    and "5 \<le> py_len h" and "5 \<le> py_len h'"
    and "pod_namespace p = pod_namespace p'"
  shows "extract_owner p = extract_owner p' \<and>
         extract_owner p = pod_namespace p @ ''/ReplicaSet/'' @ app"
  using assms by (simp add: extract_owner_def strip_hash_def rsplit1_sep)

text \<open>Witness of C38: the two pods of the architecture document.\<close>
theorem owner_survives_rollout_witness:
  "extract_owner \<lparr>pod_namespace = ''prod'', pod_name = ''payment-api-7d9f8c4b5-x7k2p'', pod_uid = ''u1'',
     pod_owner_references = Some [(''ReplicaSet'', ''payment-api-7d9f8c4b5'')]\<rparr>
   = extract_owner \<lparr>pod_namespace = ''prod'', pod_name = ''payment-api-9aa11bb22-zz99x'', pod_uid = ''u2'',
     pod_owner_references = Some [(''ReplicaSet'', ''payment-api-9aa11bb22'')]\<rparr>"
proof -
  let ?p = "\<lparr>pod_namespace = ''prod'', pod_name = ''payment-api-7d9f8c4b5-x7k2p'', pod_uid = ''u1'',
     pod_owner_references = Some [(''ReplicaSet'', ''payment-api-7d9f8c4b5'')]\<rparr>"
  let ?q = "\<lparr>pod_namespace = ''prod'', pod_name = ''payment-api-9aa11bb22-zz99x'', pod_uid = ''u2'',
     pod_owner_references = Some [(''ReplicaSet'', ''payment-api-9aa11bb22'')]\<rparr>"
  have "5 \<le> py_len ''7d9f8c4b5''" "5 \<le> py_len ''9aa11bb22''"
    by (simp_all add: py_len_def cont_byte_def byte_def)
  then show ?thesis
    using owner_survives_rollout [of ?p "''payment-api''" "''7d9f8c4b5''" "[]" ?q "''9aa11bb22''" "[]"]
    by simp
qed

text \<open>The negative cache is for ever: once a cgroup has been judged not to belong to a pod,
  every later check says so again, whatever the file system has become in the meantime (an inode
  number the kernel hands to a new container included).\<close>
lemma not_a_pod_for_ever:
  assumes "is_pod_cgroup fs c r = (False, r')"
  shows "is_pod_cgroup fs' c r' = (False, r')"
  using assms by (rule is_pod_cgroup_again)

text \<open>An instance: inode 108000 is asked about before the pod's directory exists, and stays a
  host process when it does.\<close>
lemma not_a_pod_for_ever_instance:
  "is_pod_cgroup \<lparr>fs_top = [], fs_ino = (\<lambda>p. None), fs_kill = (\<lambda>p. KillMissing)\<rparr> 108000 new_resolver
     = (False, new_resolver\<lparr>not_in_kubepods := [108000]\<rparr>) \<and>
   is_pod_cgroup demo_fs 108000 new_resolver \<noteq> (False, new_resolver\<lparr>not_in_kubepods := [108000]\<rparr>) \<and>
   is_pod_cgroup demo_fs 108000 (new_resolver\<lparr>not_in_kubepods := [108000]\<rparr>)
     = (False, new_resolver\<lparr>not_in_kubepods := [108000]\<rparr>)"
proof -
  have "is_pod_cgroup \<lparr>fs_top = [], fs_ino = (\<lambda>p. None), fs_kill = (\<lambda>p. KillMissing)\<rparr> 108000 new_resolver
     = (False, new_resolver\<lparr>not_in_kubepods := [108000]\<rparr>)"
    by (simp add: is_pod_cgroup_eq new_resolver_def kubepods_bases_def walk_base_def top_dir_def)
  moreover have "is_pod_cgroup demo_fs 108000 new_resolver \<noteq> (False, new_resolver\<lparr>not_in_kubepods := [108000]\<rparr>)"
    by (simp add: is_pod_cgroup_eq new_resolver_def demo_find)
  ultimately show ?thesis using not_a_pod_for_ever by blast
qed

end
