(* ===== verification/Window.thy ===== *)
theory Window
  imports Prelude
begin

text \<open>
  The sliding time window, the interface two components share: the deque of an attack story and
  the detection history of an owner are both emptied from the front while the oldest entry is
  older than a cutoff. The locale states the two equations of such a loop; what it proves (the
  loop is \<open>dropWhile\<close>, on time-ordered input it keeps exactly the entries inside the window,
  cutting twice is cutting at the later point, an entry at the cutoff survives) holds for both
  loops by interpretation.
\<close>

locale sliding_window =
  fixes stamp :: "'e \<Rightarrow> rat"
    and evict :: "rat \<Rightarrow> 'e list \<Rightarrow> 'e list"
  assumes evict_Nil: "evict cutoff [] = []"
    and evict_Cons: "evict cutoff (x # xs) =
          (if stamp x < cutoff then evict cutoff xs else x # xs)"
begin

lemma evict_dropWhile: "evict cutoff xs = dropWhile (\<lambda>x. stamp x < cutoff) xs"
  by (induction xs) (simp_all add: evict_Nil evict_Cons)

lemma evict_subset: "set (evict cutoff xs) \<subseteq> set xs"
  unfolding evict_dropWhile by (rule set_dropWhile_subset)

lemma evict_sorted:
  "sorted (map stamp xs) \<Longrightarrow> evict cutoff xs = filter (\<lambda>x. cutoff \<le> stamp x) xs"
  unfolding evict_dropWhile by (rule dropWhile_eq_filter_sorted)

lemma sorted_evict: "sorted (map stamp xs) \<Longrightarrow> sorted (map stamp (evict cutoff xs))"
  unfolding evict_dropWhile by (rule sorted_map_dropWhile)

text \<open>Whatever the order of the entries, the oldest one kept is inside the window.\<close>

lemma evict_head: "evict cutoff xs = y # ys \<Longrightarrow> cutoff \<le> stamp y"
  unfolding evict_dropWhile by (auto simp: dropWhile_eq_Cons_conv)

text \<open>The entry just appended survives when it is inside the window.\<close>

lemma evict_snoc:
  assumes "cutoff \<le> stamp x"
  shows "evict cutoff (xs @ [x]) = evict cutoff xs @ [x]"
  using assms by (induction xs) (simp_all add: evict_Nil evict_Cons)

lemma evict_twice: "c \<le> c' \<Longrightarrow> evict c' (evict c xs) = evict c' xs"
  by (induction xs) (auto simp: evict_Nil evict_Cons)

lemma evict_append_evict:
  "c \<le> c' \<Longrightarrow> evict c' (evict c xs @ ys) = evict c' (xs @ ys)"
  by (induction xs) (auto simp: evict_Nil evict_Cons)

end

end
