(* ===== verification/Correlator.thy ===== *)
theory Correlator
  imports Utf8 Window
begin

text \<open>
  \<open>core/correlator.py\<close>: the weights, the path rules, the attack story of one container with its
  sliding window, and the correlator that keeps one story per cgroup. A story's deque is a list
  of events paired with the score each contributed; \<open>time.monotonic()\<close> is the argument \<open>now\<close>.
\<close>

section \<open>Events\<close>

text \<open>The dictionary \<open>SyscallTracer._handle_event\<close> hands to its callback.\<close>

record event =
  ev_pid :: int
  ev_ppid :: int
  ev_cgroup_id :: int
  ev_comm :: string
  ev_filename :: string
  ev_syscall :: string
  ev_ts :: rat
  ev_latency_ms :: rat
  ev_killed_in_kernel :: bool

section \<open>Weights and path rules\<close>

definition suspicious_path_prefixes :: "(string \<times> int) list" where
  "suspicious_path_prefixes =
     [(''/etc/shadow'', 60),
      (''/etc/kubernetes'', 40),
      (''/var/lib/kubelet/pods'', 50),
      (''/proc/1/root'', 100),
      (''/proc/1/ns'', 100),
      (''/host'', 30)]"

definition suspicious_path_suffixes :: "(string \<times> int) list" where
  "suspicious_path_suffixes =
     [(''/etc/shadow'', 60),
      (''/etc/kubernetes/pki/ca.key'', 100),
      (''/etc/kubernetes/admin.conf'', 100),
      (''/.ssh/id_rsa'', 60),
      (''/.ssh/authorized_keys'', 60)]"

definition suspicious_filenames :: "(string \<times> int) list" where
  "suspicious_filenames =
     [(''docker.sock'', 100), (''containerd.sock'', 100), (''crio.sock'', 100)]"

definition suspicious_syscalls :: "(string \<times> int) list" where
  "suspicious_syscalls =
     [(''chroot'', 50), (''mount'', 70), (''move_mount'', 70), (''fsmount'', 70),
      (''open_tree'', 20), (''pivot_root'', 100), (''setns'', 100),
      (''init_module'', 100), (''finit_module'', 100), (''delete_module'', 100),
      (''ptrace'', 40)]"

definition correlation_window_sec :: rat where
  "correlation_window_sec = 30"

definition is_library :: "string \<Rightarrow> bool" where
  "is_library path =
     (contains ''.so'' path \<or> endswith path ''ld.so.cache'' \<or> startswith path ''/proc/self/fd/'')"

definition path_matches :: "string \<Rightarrow> string \<Rightarrow> bool" where
  "path_matches filename pre = (filename = pre \<or> startswith filename (pre @ ''/''))"

section \<open>Scoring one event\<close>

fun prefix_loop :: "string \<Rightarrow> (string \<times> int) list \<Rightarrow> int \<times> string option \<Rightarrow> int \<times> string option" where
  "prefix_loop filename [] acc = acc"
| "prefix_loop filename ((pre, weight) # ps) (score, matched) =
     prefix_loop filename ps
       (if path_matches filename pre then (score + weight, Some pre) else (score, matched))"

fun suffix_loop :: "string \<Rightarrow> string option \<Rightarrow> (string \<times> int) list \<Rightarrow> int \<Rightarrow> int" where
  "suffix_loop filename matched [] score = score"
| "suffix_loop filename matched ((suf, weight) # ss) score =
     (if Some suf = matched then suffix_loop filename matched ss score
      else suffix_loop filename matched ss
             (if endswith filename suf then score + weight else score))"

definition score_path :: "string \<Rightarrow> int" where
  "score_path filename =
     (let (score, matched) = prefix_loop filename suspicious_path_prefixes (0, None);
          score = suffix_loop filename matched suspicious_path_suffixes score
      in score + dict_get suspicious_filenames (basename filename) 0)"

definition score_event :: "event \<Rightarrow> int" where
  "score_event event =
     score_path (ev_filename event) + dict_get suspicious_syscalls (ev_syscall event) 0"

section \<open>Attack stories\<close>

record attack_story =
  st_cgroup_id :: int
  st_events :: "(event \<times> int) list"
  threat_score :: int

definition new_story :: "int \<Rightarrow> attack_story" where
  "new_story cgroup_id = \<lparr>st_cgroup_id = cgroup_id, st_events = [], threat_score = 0\<rparr>"

fun evict_loop :: "rat \<Rightarrow> (event \<times> int) list \<Rightarrow> int \<Rightarrow> (event \<times> int) list \<times> int" where
  "evict_loop cutoff [] threat = ([], threat)"
| "evict_loop cutoff ((e, old_score) # rest) threat =
     (if ev_ts e < cutoff then evict_loop cutoff rest (threat - old_score)
      else ((e, old_score) # rest, threat))"

definition evict_old :: "rat \<Rightarrow> attack_story \<Rightarrow> attack_story" where
  "evict_old now story =
     (let (evs, threat) =
        evict_loop (now - correlation_window_sec) (st_events story) (threat_score story)
      in story\<lparr>st_events := evs, threat_score := threat\<rparr>)"

definition story_add :: "rat \<Rightarrow> event \<Rightarrow> int \<Rightarrow> attack_story \<Rightarrow> attack_story" where
  "story_add now event score_delta story =
     evict_old now
       (story\<lparr>st_events := st_events story @ [(event, score_delta)],
              threat_score := threat_score story + score_delta\<rparr>)"

fun last_scored :: "(event \<times> int) list \<Rightarrow> event option" where
  "last_scored [] = None"
| "last_scored ((e, score) # rest) = (if 0 < score then Some e else last_scored rest)"

definition last_comm :: "attack_story \<Rightarrow> string option" where
  "last_comm story =
     (case last_scored (rev (st_events story)) of
        Some e \<Rightarrow> Some (ev_comm e)
      | None \<Rightarrow> (if st_events story = [] then None else Some (ev_comm (fst (last (st_events story))))))"

definition significant :: "event \<times> int \<Rightarrow> bool" where
  "significant p = (case p of (e, score) \<Rightarrow>
     0 < score \<or> (ev_syscall e = ''execve'' \<and> \<not> is_library (ev_filename e)))"

definition show_step :: "event \<Rightarrow> string" where
  "show_step e = ev_syscall e @ ''('' @ ev_filename e @ '')''"

definition story_summary :: "attack_story \<Rightarrow> string" where
  "story_summary story =
     join '' -> '' (map (\<lambda>(e, score). show_step e) (filter significant (st_events story)))"

section \<open>The correlator\<close>

type_synonym stories = "int \<rightharpoonup> attack_story"

definition process :: "rat \<Rightarrow> event \<Rightarrow> stories \<Rightarrow> stories \<times> attack_story" where
  "process now event stories =
     (let cgroup_id = ev_cgroup_id event;
          story = (case stories cgroup_id of None \<Rightarrow> new_story cgroup_id | Some s \<Rightarrow> s);
          story = story_add now event (score_event event) story
      in (stories(cgroup_id \<mapsto> story), story))"

definition forget_story :: "int \<Rightarrow> stories \<Rightarrow> stories" where
  "forget_story cgroup_id stories = stories(cgroup_id := None)"

fun run_correlator :: "stories \<Rightarrow> (rat \<times> event) list \<Rightarrow> stories" where
  "run_correlator st [] = st"
| "run_correlator st ((now, e) # tr) = run_correlator (fst (process now e st)) tr"

lemma run_correlator_append:
  "run_correlator st (a @ b) = run_correlator (run_correlator st a) b"
  by (induction st a rule: run_correlator.induct) simp_all

section \<open>The window of a story\<close>

definition evict_events :: "rat \<Rightarrow> (event \<times> int) list \<Rightarrow> (event \<times> int) list" where
  "evict_events cutoff evs = fst (evict_loop cutoff evs 0)"

lemma evict_loop_score:
  "snd (evict_loop cutoff evs threat) = threat - sum_list (map snd evs)
     + sum_list (map snd (fst (evict_loop cutoff evs threat)))"
  by (induction cutoff evs threat rule: evict_loop.induct) auto

lemma evict_loop_independent:
  "fst (evict_loop cutoff evs a) = fst (evict_loop cutoff evs b)"
  by (induction evs arbitrary: a b) auto

lemma evict_loop_events: "fst (evict_loop cutoff evs threat) = evict_events cutoff evs"
  unfolding evict_events_def by (rule evict_loop_independent)

interpretation story_window: sliding_window "\<lambda>p. ev_ts (fst p)" evict_events
proof unfold_locales
  show "evict_events cutoff [] = []" for cutoff
    by (simp add: evict_events_def)
  show "evict_events cutoff (x # xs) =
      (if ev_ts (fst x) < cutoff then evict_events cutoff xs else x # xs)" for cutoff x xs
    using evict_loop_independent [of cutoff xs "- snd x" 0]
    by (cases x) (simp add: evict_events_def)
qed

lemma evict_old_eq:
  "evict_old now story =
     story\<lparr>st_events := evict_events (now - correlation_window_sec) (st_events story),
           threat_score := threat_score story - sum_list (map snd (st_events story))
             + sum_list (map snd (evict_events (now - correlation_window_sec) (st_events story)))\<rparr>"
proof -
  let ?r = "evict_loop (now - correlation_window_sec) (st_events story) (threat_score story)"
  have "?r = (evict_events (now - correlation_window_sec) (st_events story),
         threat_score story - sum_list (map snd (st_events story))
           + sum_list (map snd (evict_events (now - correlation_window_sec) (st_events story))))"
    by (rule prod_eqI) (simp_all add: evict_loop_events evict_loop_score)
  then show ?thesis by (simp add: evict_old_def)
qed

section \<open>Well-formed stories\<close>

text \<open>
  A story is well formed when its score is the sum of the contributions it holds, each
  contribution is the weight of its event, and the events all belong to its cgroup.
\<close>

definition story_ok :: "attack_story \<Rightarrow> bool" where
  "story_ok story =
     (threat_score story = sum_list (map snd (st_events story)) \<and>
      list_all (\<lambda>(e, score). score = score_event e \<and> ev_cgroup_id e = st_cgroup_id story)
        (st_events story))"

definition correlator_ok :: "stories \<Rightarrow> bool" where
  "correlator_ok st = (\<forall>c s. st c = Some s \<longrightarrow> story_ok s \<and> st_cgroup_id s = c)"

lemma new_story_ok: "story_ok (new_story c)"
  by (simp add: story_ok_def new_story_def)

lemma evict_old_ok: "story_ok s \<Longrightarrow> story_ok (evict_old now s)"
  using story_window.evict_subset
  by (fastforce simp: evict_old_eq story_ok_def list_all_iff)

lemma story_add_ok:
  "story_ok s \<Longrightarrow> ev_cgroup_id e = st_cgroup_id s \<Longrightarrow> story_ok (story_add now e (score_event e) s)"
  unfolding story_add_def by (rule evict_old_ok) (auto simp: story_ok_def)

lemma evict_old_cgroup [simp]: "st_cgroup_id (evict_old now s) = st_cgroup_id s"
  by (simp add: evict_old_eq)

lemma story_add_cgroup [simp]: "st_cgroup_id (story_add now e d s) = st_cgroup_id s"
  by (simp add: story_add_def)

lemma story_add_events:
  "st_events (story_add now e d s) =
     evict_events (now - correlation_window_sec) (st_events s @ [(e, d)])"
  by (simp add: story_add_def evict_old_eq)

lemma process_fst [simp]:
  "fst (process now e st) = st(ev_cgroup_id e \<mapsto> snd (process now e st))"
  by (simp add: process_def Let_def)

lemma process_snd:
  "snd (process now e st) = story_add now e (score_event e)
     (case st (ev_cgroup_id e) of None \<Rightarrow> new_story (ev_cgroup_id e) | Some s \<Rightarrow> s)"
  by (simp add: process_def Let_def)

lemma process_story:
  assumes "correlator_ok st"
  shows "story_ok (snd (process now e st))" "st_cgroup_id (snd (process now e st)) = ev_cgroup_id e"
proof -
  let ?s = "case st (ev_cgroup_id e) of None \<Rightarrow> new_story (ev_cgroup_id e) | Some s \<Rightarrow> s"
  have s: "story_ok ?s" "st_cgroup_id ?s = ev_cgroup_id e"
    using assms new_story_ok by (auto simp: correlator_ok_def new_story_def split: option.splits)
  then show "story_ok (snd (process now e st))"
    unfolding process_snd by (intro story_add_ok) auto
  show "st_cgroup_id (snd (process now e st)) = ev_cgroup_id e"
    using s by (simp add: process_snd)
qed

lemma correlator_ok_empty: "correlator_ok Map.empty"
  by (simp add: correlator_ok_def)

lemma correlator_ok_process: "correlator_ok st \<Longrightarrow> correlator_ok (fst (process now e st))"
  using process_story [of st now e] by (auto simp: correlator_ok_def)

lemma correlator_ok_forget: "correlator_ok st \<Longrightarrow> correlator_ok (forget_story c st)"
  by (auto simp: correlator_ok_def forget_story_def)

lemma correlator_ok_run: "correlator_ok st \<Longrightarrow> correlator_ok (run_correlator st tr)"
proof (induction st tr rule: run_correlator.induct)
  case (2 st now e tr)
  from correlator_ok_process [OF "2.prems"] show ?case by (simp only: run_correlator.simps "2.IH")
qed simp

section \<open>Scores\<close>

lemma dict_get_nonneg: "(\<And>p. p \<in> set d \<Longrightarrow> 0 \<le> snd p) \<Longrightarrow> 0 \<le> dict_get d k (0::int)"
  by (fastforce simp: dict_get_def dest: map_of_SomeD split: option.splits)

lemma prefix_loop_nonneg:
  assumes "\<forall>p \<in> set ps. 0 \<le> snd p" "0 \<le> fst acc"
  shows "0 \<le> fst (prefix_loop f ps acc)"
  using assms by (induction f ps acc rule: prefix_loop.induct) auto

lemma suffix_loop_nonneg:
  assumes "\<forall>p \<in> set ps. 0 \<le> snd p" "0 \<le> sc"
  shows "0 \<le> suffix_loop f m ps sc"
  using assms by (induction f m ps sc rule: suffix_loop.induct) auto

lemma weights_nonneg:
  "p \<in> set suspicious_path_prefixes \<Longrightarrow> 0 \<le> snd p"
  "p \<in> set suspicious_path_suffixes \<Longrightarrow> 0 \<le> snd p"
  "p \<in> set suspicious_filenames \<Longrightarrow> 0 \<le> snd p"
  "p \<in> set suspicious_syscalls \<Longrightarrow> 0 \<le> snd p"
  by (auto simp: suspicious_path_prefixes_def suspicious_path_suffixes_def
        suspicious_filenames_def suspicious_syscalls_def)

lemma score_path_nonneg: "0 \<le> score_path f"
proof -
  have "0 \<le> fst (prefix_loop f suspicious_path_prefixes (0, None))"
    by (rule prefix_loop_nonneg) (simp_all add: weights_nonneg)
  then have "0 \<le> suffix_loop f (snd (prefix_loop f suspicious_path_prefixes (0, None)))
      suspicious_path_suffixes (fst (prefix_loop f suspicious_path_prefixes (0, None)))"
    by (intro suffix_loop_nonneg) (simp_all add: weights_nonneg)
  moreover have "0 \<le> dict_get suspicious_filenames (basename f) 0"
    by (rule dict_get_nonneg) (simp add: weights_nonneg)
  ultimately show ?thesis by (simp add: score_path_def split_beta)
qed

lemma score_event_nonneg: "0 \<le> score_event e"
proof -
  have "0 \<le> dict_get suspicious_syscalls (ev_syscall e) 0"
    by (rule dict_get_nonneg) (simp add: weights_nonneg)
  with score_path_nonneg [of "ev_filename e"] show ?thesis by (simp add: score_event_def)
qed

lemma story_okD:
  assumes "story_ok s" "(e, d) \<in> set (st_events s)"
  shows "d = score_event e" "ev_cgroup_id e = st_cgroup_id s"
  using assms by (auto simp: story_ok_def list_all_iff)

lemma story_scores_nonneg: "story_ok s \<Longrightarrow> x \<in> set (map snd (st_events s)) \<Longrightarrow> 0 \<le> x"
  by (auto dest: story_okD simp: score_event_nonneg)

lemma story_score_nonneg: "story_ok s \<Longrightarrow> 0 \<le> threat_score s"
  using story_scores_nonneg sum_list_nonneg_int by (metis story_ok_def)

lemma story_score_ge_event:
  assumes "story_ok s" "(e, d) \<in> set (st_events s)"
  shows "score_event e \<le> threat_score s"
proof -
  have "d \<in> set (map snd (st_events s))" using assms(2) by force
  then have "d \<le> sum_list (map snd (st_events s))"
    using story_scores_nonneg [OF assms(1)] by (rule member_le_sum_list_int)
  with assms(1) story_okD(1) [OF assms] show ?thesis by (simp add: story_ok_def)
qed

section \<open>Path rules\<close>

text \<open>Text rules are read on component boundaries, so they can be compared list by list.\<close>

lemma split_on_prefix:
  "prefix (split_on c p) (split_on c f) \<longleftrightarrow> f = p \<or> prefix (p @ [c]) f"
proof (induction p arbitrary: f)
  case Nil
  show ?case by (cases f) (auto split: list.splits)
next
  case (Cons y p)
  show ?case
  proof (cases f)
    case Nil
    then show ?thesis by (auto split: list.splits)
  next
    case f: (Cons x f')
    have "prefix (split_on c (y # p)) (split_on c f) \<longleftrightarrow> x = y \<and> prefix (split_on c p) (split_on c f')"
      by (cases "split_on c p"; cases "split_on c f'") (auto simp: f)
    with Cons.IH show ?thesis by (auto simp: f)
  qed
qed

text \<open>The rules are pairwise disjoint: no path lies under two of the listed directories.\<close>

lemma path_matches_prefix: "path_matches f p \<Longrightarrow> prefix p f"
  by (auto simp: path_matches_def startswith_prefix dest: append_prefixD)

lemma prefix_rules_incomparable:
  "list_all (\<lambda>(p, v). list_all (\<lambda>(q, w). prefix p q \<longrightarrow> p = q) suspicious_path_prefixes)
     suspicious_path_prefixes"
  by (simp add: suspicious_path_prefixes_def)

lemma prefix_rules_disjoint:
  assumes "(p, v) \<in> set suspicious_path_prefixes" "(q, w) \<in> set suspicious_path_prefixes"
    and "path_matches f p" "path_matches f q"
  shows "p = q"
proof -
  have "prefix p q \<or> prefix q p"
    using assms(3,4) by (blast dest: path_matches_prefix prefix_same_cases)
  moreover have "prefix p q \<longrightarrow> p = q" "prefix q p \<longrightarrow> q = p"
    using prefix_rules_incomparable assms(1,2) by (fastforce simp: list_all_iff)+
  ultimately show ?thesis by blast
qed

lemma prefix_loop_none:
  "\<forall>r \<in> set ps. \<not> path_matches f (fst r) \<Longrightarrow> prefix_loop f ps acc = acc"
  by (induction f ps acc rule: prefix_loop.induct) auto

section \<open>Decoded paths\<close>

lemma byte_slash: "byte (CHR ''/'') < 128"
  by (simp add: byte_def)

lemma path_rules_ascii:
  "\<forall>r \<in> set suspicious_path_prefixes. ascii (fst r)"
  "\<forall>r \<in> set suspicious_path_suffixes. ascii (fst r)"
  "\<forall>r \<in> set suspicious_filenames. ascii (fst r) \<and> CHR ''/'' \<notin> set (fst r)"
  by (simp_all add: suspicious_path_prefixes_def suspicious_path_suffixes_def
        suspicious_filenames_def byte_def)

lemma path_matches_decode:
  "ascii p \<Longrightarrow> path_matches (decode_replace f) p = path_matches f p"
  by (simp add: path_matches_def startswith_prefix decode_prefix decode_eq_ascii byte_slash)

lemma prefix_loop_decode:
  "\<forall>r \<in> set ps. ascii (fst r) \<Longrightarrow>
     prefix_loop (decode_replace f) ps acc = prefix_loop f ps acc"
  by (induction f ps acc rule: prefix_loop.induct) (simp_all add: path_matches_decode)

lemma suffix_loop_decode:
  "\<forall>r \<in> set ps. ascii (fst r) \<Longrightarrow>
     suffix_loop (decode_replace f) m ps sc = suffix_loop f m ps sc"
  by (induction f m ps sc rule: suffix_loop.induct) (simp_all add: endswith_suffix decode_suffix)

lemma dict_get_cong:
  "\<forall>r \<in> set d. (fst r = k) = (fst r = l) \<Longrightarrow> dict_get d k w = dict_get d l w"
  by (induction d) (auto simp: dict_get_def)

lemma filename_weight_decode:
  "dict_get suspicious_filenames (basename (decode_replace f)) 0
     = dict_get suspicious_filenames (basename f) 0"
  using path_rules_ascii(3) decode_basename by (intro dict_get_cong) metis

lemma score_path_decode_eq: "score_path (decode_replace f) = score_path f"
  by (simp only: score_path_def filename_weight_decode prefix_loop_decode [OF path_rules_ascii(1)]
        suffix_loop_decode [OF path_rules_ascii(2)])

section \<open>A story against its whole history\<close>

text \<open>
  The specification of a story keeps nothing but the full history: the score of a container is
  the sum of the weights of its events that are not older than the window.
\<close>

definition events_of :: "int \<Rightarrow> (rat \<times> event) list \<Rightarrow> (rat \<times> event) list" where
  "events_of c tr = filter (\<lambda>(now, e). ev_cgroup_id e = c) tr"

definition window_score :: "rat \<Rightarrow> (rat \<times> event) list \<Rightarrow> int" where
  "window_score cutoff tr =
     sum_list (map (\<lambda>(now, e). score_event e) (filter (\<lambda>(now, e). cutoff \<le> ev_ts e) tr))"

lemma process_other: "ev_cgroup_id e \<noteq> c \<Longrightarrow> fst (process now e st) c = st c"
  by simp

lemma process_local:
  "st c = st' c \<Longrightarrow> ev_cgroup_id e = c \<Longrightarrow> fst (process now e st) c = fst (process now e st') c"
  by (simp add: process_snd)

lemma run_correlator_local:
  "st c = st' c \<Longrightarrow> run_correlator st tr c = run_correlator st' (events_of c tr) c"
proof (induction st tr arbitrary: st' rule: run_correlator.induct)
  case (2 st now e tr)
  show ?case
  proof (cases "ev_cgroup_id e = c")
    case True
    from process_local [of st c st' e now, OF "2.prems" True]
    have "run_correlator (fst (process now e st)) tr c
        = run_correlator (fst (process now e st')) (events_of c tr) c"
      by (rule "2.IH")
    with True show ?thesis by (simp add: events_of_def del: process_fst)
  next
    case False
    from process_other [OF False, of now st] "2.prems"
    have "fst (process now e st) c = st' c" by (simp only:)
    then have "run_correlator (fst (process now e st)) tr c = run_correlator st' (events_of c tr) c"
      by (rule "2.IH")
    with False show ?thesis by (simp add: events_of_def del: process_fst)
  qed
qed (simp add: events_of_def)

definition scored :: "rat \<times> event \<Rightarrow> event \<times> int" where
  "scored p = (snd p, score_event (snd p))"

lemma scored_pair [simp]: "scored (now, e) = (e, score_event e)"
  by (simp add: scored_def)

lemma run_correlator_events:
  assumes "\<forall>(now, e) \<in> set tr. ev_cgroup_id e = c" "sorted (map fst tr)" "tr \<noteq> []"
  shows "\<exists>s. run_correlator Map.empty tr c = Some s \<and>
           st_events s = evict_events (fst (last tr) - correlation_window_sec) (map scored tr)"
  using assms
proof (induction tr rule: rev_induct)
  case (snoc p tr)
  obtain now e where p [simp]: "p = (now, e)" by (cases p)
  from snoc.prems have e: "ev_cgroup_id e = c" by simp
  let ?st = "run_correlator Map.empty tr"
  let ?s = "case ?st c of None \<Rightarrow> new_story c | Some s \<Rightarrow> s"
  have now: "n \<le> now" if "n \<in> fst ` set tr" for n
    using snoc.prems(2) that by (auto simp: sorted_append)
  have "evict_events (now - correlation_window_sec) (st_events ?s @ [scored p])
        = evict_events (now - correlation_window_sec) (map scored (tr @ [p]))"
  proof (cases "tr = []")
    case True
    then show ?thesis by (simp add: new_story_def)
  next
    case False
    with snoc obtain s where s: "?st c = Some s"
      "st_events s = evict_events (fst (last tr) - correlation_window_sec) (map scored tr)"
      by (auto simp: sorted_append)
    have "fst (last tr) \<le> now" using False now by auto
    with s show ?thesis by (simp add: story_window.evict_append_evict)
  qed
  then show ?case
    by (simp add: run_correlator_append e process_snd story_add_events scored_pair
        cong: option.case_cong)
qed simp

text \<open>The events a story holds on to: all from the first one, in the order of handling, that is still
  inside the window.\<close>

definition held_score :: "rat \<Rightarrow> (rat \<times> event) list \<Rightarrow> int" where
  "held_score cutoff tr =
     sum_list (map (\<lambda>(now, e). score_event e) (dropWhile (\<lambda>(now, e). ev_ts e < cutoff) tr))"

lemma run_correlator_score:
  assumes "\<forall>(now, e) \<in> set tr. ev_cgroup_id e = c" "sorted (map fst tr)" "tr \<noteq> []"
  shows "\<exists>s. run_correlator Map.empty tr c = Some s \<and>
           threat_score s = held_score (fst (last tr) - correlation_window_sec) tr"
proof -
  let ?cut = "fst (last tr) - correlation_window_sec"
  obtain s where s: "run_correlator Map.empty tr c = Some s"
    and evs: "st_events s = evict_events ?cut (map scored tr)"
    using run_correlator_events [OF assms] by blast
  have "map snd (st_events s) = map (\<lambda>(now, e). score_event e) (dropWhile (\<lambda>(now, e). ev_ts e < ?cut) tr)"
    unfolding evs story_window.evict_dropWhile
    by (simp add: dropWhile_map o_def scored_def case_prod_unfold)
  moreover have "threat_score s = sum_list (map snd (st_events s))"
    using correlator_ok_run [OF correlator_ok_empty, of tr] s
    by (auto simp: correlator_ok_def story_ok_def)
  ultimately show ?thesis using s by (simp add: held_score_def)
qed

lemma held_sorted: "sorted (map (\<lambda>(now, e). ev_ts e) tr) \<Longrightarrow> held_score cutoff tr = window_score cutoff tr"
  using dropWhile_eq_filter_sorted [of "\<lambda>p. ev_ts (snd p)" tr cutoff]
  by (simp add: held_score_def window_score_def case_prod_unfold)

text \<open>Weights are not negative, so holding on to an event never lowers the score.\<close>

lemma window_le_held: "window_score cutoff tr \<le> held_score cutoff tr"
proof (induction tr)
  case (Cons x tr)
  have "sum_list (map (\<lambda>(now, e). score_event e) (filter (\<lambda>(now, e). cutoff \<le> ev_ts e) tr))
      \<le> sum_list (map (\<lambda>(now, e). score_event e) tr)"
    by (induction tr) (auto simp: score_event_nonneg add_increasing)
  with Cons show ?case by (cases x) (auto simp: window_score_def held_score_def)
qed (simp add: window_score_def held_score_def)

text \<open>An event that is itself inside the window is still in the story when the verdict is read.\<close>

lemma process_keeps_fresh:
  assumes "now - correlation_window_sec \<le> ev_ts e"
  shows "(e, score_event e) \<in> set (st_events (snd (process now e st)))"
  using assms by (simp add: process_snd story_add_events story_window.evict_snoc)

section \<open>Properties\<close>

text \<open>C12. After any history of a node's events, handled in whatever order the kernel's buffers deliver
  them but by a monotonic clock, the running subtraction of the eviction loop leaves in a container's
  threat score exactly the sum of the weights of its events from the first one handled that is not
  yet thirty seconds old. So no event of the last thirty seconds is ever missing from the score, and
  when the container's events were handled in the order of their kernel timestamps the score is
  exactly their sum; an old event is counted longer only behind a younger one handled before it.\<close>
theorem story_score_is_window_sum:
  assumes "events_of c tr \<noteq> []" and "sorted (map fst (events_of c tr))"
    and "cutoff = fst (last (events_of c tr)) - correlation_window_sec"
  shows "\<exists>s. run_correlator Map.empty tr c = Some s \<and>
           threat_score s =
             sum_list (map (\<lambda>(now, e). score_event e) (dropWhile (\<lambda>(now, e). ev_ts e < cutoff) (events_of c tr))) \<and>
           window_score cutoff (events_of c tr) \<le> threat_score s \<and>
           (sorted (map (\<lambda>(now, e). ev_ts e) (events_of c tr)) \<longrightarrow>
              threat_score s = window_score cutoff (events_of c tr))"
proof -
  have "\<forall>(now, e) \<in> set (events_of c tr). ev_cgroup_id e = c"
    by (simp add: events_of_def)
  from run_correlator_score [OF this assms(2,1)] window_le_held [of cutoff "events_of c tr"]
    held_sorted [of "events_of c tr" cutoff] show ?thesis
    by (auto simp: run_correlator_local [of Map.empty c Map.empty tr] assms(3) held_score_def)
qed

definition demo_event :: "int \<Rightarrow> string \<Rightarrow> string \<Rightarrow> string \<Rightarrow> rat \<Rightarrow> event" where
  "demo_event c comm syscall filename ts =
     \<lparr>ev_pid = 42, ev_ppid = 1, ev_cgroup_id = c, ev_comm = comm, ev_filename = filename,
      ev_syscall = syscall, ev_ts = ts, ev_latency_ms = 1 / 2, ev_killed_in_kernel = False\<rparr>"

text \<open>The definitions a score on a concrete event unfolds to.\<close>

lemmas score_eval = score_event_def score_path_def suspicious_path_prefixes_def suspicious_path_suffixes_def
  suspicious_filenames_def suspicious_syscalls_def dict_get_def path_matches_def startswith_def
  endswith_def basename_def rsplit1_def

text \<open>Witness of C12: a read of the password file forty seconds before a chroot has left the
  window, and the story scores the chroot alone; delivered behind a younger event of another CPU's
  buffer, it stays and counts.\<close>
theorem story_score_is_window_sum_witness:
  "(\<exists>s. run_correlator Map.empty
         [(10, demo_event 7 ''cat'' ''openat'' ''/etc/shadow'' 10),
          (50, demo_event 7 ''chroot'' ''chroot'' ''/'' 50)] 7 = Some s \<and> threat_score s = 50) \<and>
   (\<exists>s. run_correlator Map.empty
         [(40, demo_event 7 ''chroot'' ''chroot'' ''/'' 40), (40, demo_event 7 ''cat'' ''openat'' ''/etc/shadow'' 10),
          (50, demo_event 7 ''cat'' ''openat'' ''/etc/hosts'' 50)] 7 = Some s \<and> threat_score s = 110)"
proof
  let ?tr = "[(10, demo_event 7 ''cat'' ''openat'' ''/etc/shadow'' 10),
              (50, demo_event 7 ''chroot'' ''chroot'' ''/'' 50)]"
  let ?late = "[(40, demo_event 7 ''chroot'' ''chroot'' ''/'' 40), (40, demo_event 7 ''cat'' ''openat'' ''/etc/shadow'' 10),
              (50, demo_event 7 ''cat'' ''openat'' ''/etc/hosts'' 50)]"
  have tr: "events_of 7 ?tr = ?tr" "events_of 7 ?late = ?late" by (simp_all add: events_of_def demo_event_def)
  have scores: "score_event (demo_event 7 ''chroot'' ''chroot'' ''/'' t) = 50"
    "score_event (demo_event 7 ''cat'' ''openat'' ''/etc/shadow'' t) = 60"
    "score_event (demo_event 7 ''cat'' ''openat'' ''/etc/hosts'' t) = 0" for t
    by (simp_all add: score_eval demo_event_def)
  have ts: "ev_ts (demo_event c comm sc f t) = t" for c comm sc f t by (simp add: demo_event_def)
  show "\<exists>s. run_correlator Map.empty ?tr 7 = Some s \<and> threat_score s = 50"
    using story_score_is_window_sum [of 7 ?tr "fst (last (events_of 7 ?tr)) - correlation_window_sec"]
    unfolding tr by (auto simp: correlation_window_sec_def scores ts simp del: run_correlator.simps)
  show "\<exists>s. run_correlator Map.empty ?late 7 = Some s \<and> threat_score s = 110"
    using story_score_is_window_sum [of 7 ?late "fst (last (events_of 7 ?late)) - correlation_window_sec"]
    unfolding tr by (auto simp: correlation_window_sec_def scores ts simp del: run_correlator.simps)
qed

text \<open>C39. The path rule matches whole path components: a rule matches a file name exactly when
  the rule's list of components is a prefix of the name's.\<close>
theorem path_matches_components:
  "path_matches filename rule \<longleftrightarrow>
     prefix (split_on (CHR ''/'') rule) (split_on (CHR ''/'') filename)"
  by (simp add: path_matches_def startswith_prefix split_on_prefix)

text \<open>C40. Decoding the kernel's bytes with replacement neither hides nor fabricates a sensitive
  path: the path score of the decoded name is the score of the raw bytes.\<close>
theorem score_survives_decoding: "score_path (decode_replace raw) = score_path raw"
  by (rule score_path_decode_eq)

end
