(* ===== verification/Policy.thy ===== *)
theory Policy
  imports Correlator
begin

text \<open>
  \<open>core/policy_engine.py\<close>: reading the thresholds and namespace lists from the parsed policy
  document, the verdict on a story and the reason shown to humans. The document itself is what
  \<open>yaml.safe_load\<close> returned, a value of type \<open>yval\<close>; what Python does with a value of the wrong
  kind (a missing key, a threshold that is no number) is part of the model.
\<close>

section \<open>Parsed YAML values\<close>

datatype yval =
    YNull
  | YBool bool
  | YInt int
  | YFloat rat
  | YStr string
  | YList "yval list"
  | YMap "(string \<times> yval) list"

definition truthy :: "yval \<Rightarrow> bool" where
  "truthy v = (case v of YNull \<Rightarrow> False | YBool b \<Rightarrow> b | YInt i \<Rightarrow> i \<noteq> 0 | YFloat r \<Rightarrow> r \<noteq> 0
     | YStr s \<Rightarrow> s \<noteq> [] | YList xs \<Rightarrow> xs \<noteq> [] | YMap d \<Rightarrow> d \<noteq> [])"

text \<open>\<open>v or w\<close>, \<open>v[k]\<close> and \<open>v.get(k, w)\<close>.\<close>

definition py_or :: "yval \<Rightarrow> yval \<Rightarrow> yval" where
  "py_or v w = (if truthy v then v else w)"

definition getitem :: "yval \<Rightarrow> string \<Rightarrow> yval result" where
  "getitem v k = (case v of
     YMap d \<Rightarrow> (case map_of d k of None \<Rightarrow> Inl (KeyError k) | Some w \<Rightarrow> Inr w)
   | _ \<Rightarrow> Inl TypeError)"

definition dget :: "yval \<Rightarrow> string \<Rightarrow> yval \<Rightarrow> yval result" where
  "dget v k w = (case v of YMap d \<Rightarrow> Inr (dict_get d k w) | _ \<Rightarrow> Inl AttributeError)"

text \<open>
  \<open>int(s)\<close> on a string: white space around it, an optional sign, decimal digits with single
  underscores between them, all in ASCII.
\<close>

definition digit_value :: "char \<Rightarrow> nat option" where
  "digit_value c = (if 48 \<le> byte c \<and> byte c \<le> 57 then Some (byte c - 48) else None)"

definition space_byte :: "char \<Rightarrow> bool" where
  "space_byte c = (byte c = 32 \<or> 9 \<le> byte c \<and> byte c \<le> 13 \<or> 28 \<le> byte c \<and> byte c \<le> 31)"

definition strip_spaces :: "string \<Rightarrow> string" where
  "strip_spaces s = rev (dropWhile space_byte (rev (dropWhile space_byte s)))"

fun more_digits :: "nat \<Rightarrow> string \<Rightarrow> nat option" where
  "more_digits acc [] = Some acc"
| "more_digits acc (c # cs) =
     (case digit_value c of
        Some d \<Rightarrow> more_digits (acc * 10 + d) cs
      | None \<Rightarrow>
          (if c \<noteq> CHR ''_'' then None
           else (case cs of
                   [] \<Rightarrow> None
                 | c' # cs' \<Rightarrow>
                     (case digit_value c' of None \<Rightarrow> None | Some d \<Rightarrow> more_digits (acc * 10 + d) cs'))))"

definition parse_digits :: "string \<Rightarrow> nat option" where
  "parse_digits s = (case s of
     [] \<Rightarrow> None
   | c # cs \<Rightarrow> (case digit_value c of None \<Rightarrow> None | Some d \<Rightarrow> more_digits d cs))"

definition parse_int :: "string \<Rightarrow> int option" where
  "parse_int s = (case strip_spaces s of
     [] \<Rightarrow> None
   | c # cs \<Rightarrow>
       (if c = CHR ''-'' then map_option (\<lambda>n. - int n) (parse_digits cs)
        else if c = CHR ''+'' then map_option int (parse_digits cs)
        else map_option int (parse_digits (c # cs))))"

lemma parse_int_examples:
  "parse_int '' 1_000 '' = Some 1000" "parse_int ''-7'' = Some (- 7)" "parse_int ''+ 7'' = None"
  "parse_int ''1__0'' = None" "parse_int ''10_'' = None" "parse_int '' '' = None"
  by (simp_all add: parse_int_def strip_spaces_def space_byte_def parse_digits_def digit_value_def byte_def)

definition truncate_rat :: "rat \<Rightarrow> int" where
  "truncate_rat r = (if r < 0 then - \<lfloor>- r\<rfloor> else \<lfloor>r\<rfloor>)"

definition py_int :: "yval \<Rightarrow> int result" where
  "py_int v = (case v of
     YInt i \<Rightarrow> Inr i
   | YBool b \<Rightarrow> Inr (if b then 1 else 0)
   | YFloat r \<Rightarrow> Inr (truncate_rat r)
   | YStr s \<Rightarrow> (case parse_int s of None \<Rightarrow> Inl ValueError | Some i \<Rightarrow> Inr i)
   | _ \<Rightarrow> Inl TypeError)"

definition numeric :: "yval \<Rightarrow> rat option" where
  "numeric v = (case v of
     YInt i \<Rightarrow> Some (of_int i) | YFloat r \<Rightarrow> Some r | YBool b \<Rightarrow> Some (if b then 1 else 0)
   | _ \<Rightarrow> None)"

text \<open>\<open>i >= v\<close>.\<close>

definition py_ge :: "int \<Rightarrow> yval \<Rightarrow> bool result" where
  "py_ge i v = (case numeric v of None \<Rightarrow> Inl TypeError | Some r \<Rightarrow> Inr (r \<le> of_int i))"

text \<open>
  \<open>set(v or [])\<close>, as the set of strings it can be asked about: iterating a string gives its
  characters, iterating a mapping its keys; a nested list or mapping is unhashable.
\<close>

fun hashable :: "yval \<Rightarrow> bool" where
  "hashable (YList _) = False"
| "hashable (YMap _) = False"
| "hashable _ = True"

fun string_members :: "yval list \<Rightarrow> string list" where
  "string_members [] = []"
| "string_members (YStr s # vs) = s # string_members vs"
| "string_members (_ # vs) = string_members vs"

definition namespace_set :: "yval \<Rightarrow> string list result" where
  "namespace_set v =
     (if \<not> truthy v then Inr []
      else case v of
        YList vs \<Rightarrow> (if list_all hashable vs then Inr (string_members vs) else Inl TypeError)
      | YStr s \<Rightarrow> Inr (chars s)
      | YMap d \<Rightarrow> Inr (map fst d)
      | _ \<Rightarrow> Inl TypeError)"

section \<open>The engine\<close>

datatype decision = ALLOW | WARN | KILL

record policy =
  warn_threshold :: yval
  kill_threshold :: yval
  exclude_namespaces :: yval
  warn_only_namespaces :: yval
  repeat_enabled :: yval
  repeat_window_sec :: int
  repeat_threshold :: int
  repeat_action :: yval

definition policy_init :: "yval \<Rightarrow> policy result" where
  "policy_init config =
     and_then (getitem config ''thresholds'') (\<lambda>thresholds.
     and_then (getitem thresholds ''warn'') (\<lambda>warn.
     and_then (getitem thresholds ''kill'') (\<lambda>kill.
     and_then (dget config ''exclude_namespaces'' (YList [])) (\<lambda>excl.
     and_then (dget config ''warn_only_namespaces'' (YList [])) (\<lambda>warn_only.
     and_then (dget config ''repeat_escalation'' YNull) (\<lambda>esc_or_null.
     let esc = py_or esc_or_null (YMap []) in
     and_then (dget esc ''enabled'' (YBool True)) (\<lambda>enabled.
     and_then (and_then (dget esc ''window_minutes'' (YInt 10)) py_int) (\<lambda>minutes.
     and_then (and_then (dget esc ''threshold'' (YInt 3)) py_int) (\<lambda>threshold.
     and_then (dget esc ''action'' (YStr ''alert'')) (\<lambda>action.
       Inr \<lparr>warn_threshold = warn, kill_threshold = kill, exclude_namespaces = excl,
            warn_only_namespaces = warn_only, repeat_enabled = enabled,
            repeat_window_sec = minutes * 60, repeat_threshold = threshold,
            repeat_action = action\<rparr>))))))))))"

definition evaluate :: "policy \<Rightarrow> attack_story \<Rightarrow> decision result" where
  "evaluate p story =
     and_then (py_ge (threat_score story) (kill_threshold p)) (\<lambda>kill.
       if kill then Inr KILL
       else and_then (py_ge (threat_score story) (warn_threshold p)) (\<lambda>warn.
         if warn then Inr WARN
         else Inr ALLOW))"

definition policy_reason :: "attack_story \<Rightarrow> string" where
  "policy_reason story =
     (let comm_part =
        (case last_comm story of
           None \<Rightarrow> []
         | Some comm \<Rightarrow> (if comm = [] then [] else ''proc='' @ comm @ '' ''))
      in comm_part @ ''threat_score='' @ show_int (threat_score story) @
         '' chain=['' @ story_summary story @ '']'')"

text \<open>The policy file the repository ships.\<close>

definition shipped_config :: yval where
  "shipped_config =
     YMap [(''thresholds'', YMap [(''warn'', YInt 40), (''kill'', YInt 90)]),
           (''exclude_namespaces'', YList [YStr ''kubewarden-system'']),
           (''warn_only_namespaces'',
              YList [YStr ''kube-system'', YStr ''trivy-system'', YStr ''falco'',
                     YStr ''monitoring'', YStr ''observability'']),
           (''repeat_escalation'',
              YMap [(''enabled'', YBool True), (''window_minutes'', YInt 10),
                    (''threshold'', YInt 3), (''action'', YStr ''alert'')])]"

section \<open>Decisions are ordered\<close>

fun severity :: "decision \<Rightarrow> nat" where
  "severity ALLOW = 0"
| "severity WARN = 1"
| "severity KILL = 2"

lemma severity_inj: "severity a = severity b \<Longrightarrow> a = b"
  by (cases a; cases b) auto

instantiation decision :: linorder
begin

definition less_eq_decision :: "decision \<Rightarrow> decision \<Rightarrow> bool" where
  "less_eq_decision a b = (severity a \<le> severity b)"

definition less_decision :: "decision \<Rightarrow> decision \<Rightarrow> bool" where
  "less_decision a b = (severity a < severity b)"

instance
  by standard (auto simp: less_eq_decision_def less_decision_def intro: severity_inj)

end

lemma decision_le [simp]: "ALLOW \<le> d" "d \<le> KILL"
  by (cases d; simp add: less_eq_decision_def)+

section \<open>Verdicts\<close>

lemma evaluate_numeric:
  assumes "numeric (warn_threshold p) = Some w" "numeric (kill_threshold p) = Some k"
  shows "evaluate p story =
     Inr (if k \<le> of_int (threat_score story) then KILL
          else if w \<le> of_int (threat_score story) then WARN else ALLOW)"
  using assms by (simp add: evaluate_def py_ge_def)

lemma evaluate_error:
  "evaluate p story = Inl e \<Longrightarrow>
     e = TypeError \<and> (numeric (kill_threshold p) = None \<or> numeric (warn_threshold p) = None)"
  by (auto simp: evaluate_def py_ge_def split: option.splits if_splits)

lemma shipped_policy:
  "policy_init shipped_config =
     Inr \<lparr>warn_threshold = YInt 40, kill_threshold = YInt 90,
          exclude_namespaces = YList [YStr ''kubewarden-system''],
          warn_only_namespaces =
            YList [YStr ''kube-system'', YStr ''trivy-system'', YStr ''falco'',
                   YStr ''monitoring'', YStr ''observability''],
          repeat_enabled = YBool True, repeat_window_sec = 600, repeat_threshold = 3,
          repeat_action = YStr ''alert''\<rparr>"
  by (simp add: policy_init_def shipped_config_def getitem_def dget_def dict_get_def py_or_def
      truthy_def py_int_def)

lemma evaluate_KILL_iff:
  "evaluate p story = Inr KILL \<longleftrightarrow>
     (\<exists>k. numeric (kill_threshold p) = Some k \<and> k \<le> of_int (threat_score story))"
  by (auto simp: evaluate_def py_ge_def and_then_Inr_iff split: option.splits if_splits)

lemma evaluate_Inr_cases:
  assumes "evaluate p story = Inr d"
  obtains k where "numeric (kill_threshold p) = Some k"
    and "d = KILL" "k \<le> of_int (threat_score story)"
  | k w where "numeric (kill_threshold p) = Some k" "numeric (warn_threshold p) = Some w"
    and "d = (if w \<le> of_int (threat_score story) then WARN else ALLOW)"
    and "of_int (threat_score story) < k"
  using assms
  by (auto simp: evaluate_def py_ge_def and_then_Inr_iff split: option.splits if_splits)

lemma run_story_ok:
  "run_correlator Map.empty tr c = Some s \<Longrightarrow> story_ok s \<and> st_cgroup_id s = c"
  using correlator_ok_run [OF correlator_ok_empty, of tr] by (simp add: correlator_ok_def)

lemma run_story_events:
  "run_correlator st tr c = Some s \<Longrightarrow> (e, d) \<in> set (st_events s) \<Longrightarrow>
     (\<exists>now. (now, e) \<in> set tr) \<or> (\<exists>s0. st c = Some s0 \<and> (e, d) \<in> set (st_events s0))"
proof (induction st tr rule: run_correlator.induct)
  case (2 st now e' tr)
  have keep: "(e, d) = (e', score_event e') \<or> (\<exists>s0. st c = Some s0 \<and> (e, d) \<in> set (st_events s0))"
    if "fst (process now e' st) c = Some s1" "(e, d) \<in> set (st_events s1)" for s1
  proof (cases "ev_cgroup_id e' = c")
    case True
    with that(1) have "s1 = snd (process now e' st)" by simp
    with that(2) have "(e, d) \<in> set (st_events (case st c of None \<Rightarrow> new_story c | Some s \<Rightarrow> s)
        @ [(e', score_event e')])"
      using True story_window.evict_subset by (fastforce simp: process_snd story_add_events)
    then show ?thesis by (auto simp: new_story_def split: option.splits)
  next
    case False
    with that show ?thesis by auto
  qed
  from "2.IH" "2.prems" keep show ?case by (simp del: process_fst) blast
qed auto

lemma fresh_event_kills:
  assumes "correlator_ok st" and "numeric (kill_threshold p) = Some k"
    and "k \<le> of_int (score_event e)" and "now - correlation_window_sec \<le> ev_ts e"
  shows "evaluate p (snd (process now e st)) = Inr KILL"
proof -
  have "story_ok (snd (process now e st))" by (rule process_story(1) [OF assms(1)])
  then have "score_event e \<le> threat_score (snd (process now e st))"
    using process_keeps_fresh [OF assms(4)] by (rule story_score_ge_event)
  then have "of_int (score_event e) \<le> (of_int (threat_score (snd (process now e st))) :: rat)"
    by simp
  with assms(2,3) show ?thesis unfolding evaluate_KILL_iff by (meson order_trans)
qed

section \<open>Properties\<close>

text \<open>More evidence never makes the verdict milder.\<close>
lemma verdict_monotone:
  assumes "threat_score s \<le> threat_score s'"
    and "evaluate p s = Inr d" and "evaluate p s' = Inr d'"
  shows "d \<le> d'"
proof -
  have "of_int (threat_score s) \<le> (of_int (threat_score s') :: rat)" using assms(1) by simp
  with assms(2,3) show ?thesis
    by (auto elim!: evaluate_Inr_cases simp: less_eq_decision_def)
qed

text \<open>One conclusive event is enough: an event that is itself worth the kill threshold and
  is still inside the window when it is handled makes the verdict KILL, whatever the history.\<close>
lemma conclusive_event_kills:
  assumes "numeric (kill_threshold p) = Some k"
    and "k \<le> of_int (score_event e)"
    and "now - correlation_window_sec \<le> ev_ts e"
  shows "evaluate p (snd (process now e (run_correlator Map.empty tr))) = Inr KILL"
  by (rule fresh_event_kills [OF correlator_ok_run [OF correlator_ok_empty] assms])

text \<open>An instance: a single \<open>setns\<close> in a container with no history.\<close>
lemma conclusive_event_kills_instance:
  "\<exists>p. policy_init shipped_config = Inr p \<and>
     evaluate p (snd (process 5 (demo_event 7 ''nsenter'' ''setns'' [] 5) Map.empty)) = Inr KILL"
proof -
  obtain p where p: "policy_init shipped_config = Inr p" and k: "numeric (kill_threshold p) = Some 90"
    by (simp add: shipped_policy numeric_def)
  have "(90 :: rat) \<le> of_int (score_event (demo_event 7 ''nsenter'' ''setns'' [] 5))"
    by (simp add: score_eval demo_event_def)
  from conclusive_event_kills [OF k this, of 5 "[]"] p show ?thesis
    by (simp add: demo_event_def correlation_window_sec_def)
qed

text \<open>No false positive by accumulation: a container that only ever does things no rule
  names is judged ALLOW after any number of events, for every policy whose warning threshold is
  positive.\<close>
lemma benign_container_allowed:
  assumes "numeric (kill_threshold p) = Some k" and "numeric (warn_threshold p) = Some w"
    and "0 < w" and "0 < k"
    and "\<forall>(now, e) \<in> set tr. ev_cgroup_id e = c \<longrightarrow> score_event e = 0"
    and "run_correlator Map.empty tr c = Some s"
  shows "evaluate p s = Inr ALLOW"
proof -
  have ok: "story_ok s" "st_cgroup_id s = c" using run_story_ok [OF assms(6)] by simp_all
  have "\<forall>(e, d) \<in> set (st_events s). d = 0"
    using run_story_events [OF assms(6)] story_okD [OF ok(1)] assms(5) ok(2) by fastforce
  then have "sum_list (map snd (st_events s)) = 0"
    by (intro sum_list_all_zero) auto
  with ok(1) have "threat_score s = 0" by (simp add: story_ok_def)
  with assms(3,4) show ?thesis by (simp add: evaluate_numeric [OF assms(2,1)])
qed

text \<open>An instance: reading \<open>/etc/hosts\<close>, the accesses that once killed an image scanner.\<close>
lemma benign_container_allowed_instance:
  "\<exists>p s. policy_init shipped_config = Inr p \<and>
     run_correlator Map.empty
       [(1, demo_event 7 ''trivy'' ''openat'' ''/etc/hosts'' 1),
        (2, demo_event 7 ''trivy'' ''openat'' ''/opt/hostedtoolcache/x'' 2)] 7 = Some s \<and>
     evaluate p s = Inr ALLOW"
proof -
  let ?tr = "[(1, demo_event 7 ''trivy'' ''openat'' ''/etc/hosts'' 1),
        (2, demo_event 7 ''trivy'' ''openat'' ''/opt/hostedtoolcache/x'' 2)]"
  obtain p where p: "policy_init shipped_config = Inr p" and w: "numeric (warn_threshold p) = Some 40"
    and k: "numeric (kill_threshold p) = Some 90"
    by (simp add: shipped_policy numeric_def)
  obtain s where s: "run_correlator Map.empty ?tr 7 = Some s"
    by (simp add: demo_event_def)
  have "\<forall>(now, e) \<in> set ?tr. ev_cgroup_id e = 7 \<longrightarrow> score_event e = 0"
    by (simp add: score_eval demo_event_def)
  from benign_container_allowed [OF k w _ _ this s] p s show ?thesis by auto
qed

end
