(* ===== verification/Repeat.thy ===== *)
theory Repeat
  imports Policy
begin

text \<open>
  \<open>core/repeat_tracker.py\<close>: how often each pod owner was judged KILL inside the observation
  window. The history is an association list from owner to the deque of detection times, in the
  dictionary's insertion order; \<open>time.monotonic()\<close> is the argument \<open>now\<close>.
\<close>

record repeat_tracker =
  rt_window :: int
  rt_threshold :: int
  rt_action :: yval
  rt_history :: "(string \<times> rat list) list"

definition new_tracker :: "int \<Rightarrow> int \<Rightarrow> yval \<Rightarrow> repeat_tracker" where
  "new_tracker window threshold action =
     \<lparr>rt_window = window, rt_threshold = threshold, rt_action = action, rt_history = []\<rparr>"

fun expire_loop :: "rat \<Rightarrow> rat list \<Rightarrow> rat list" where
  "expire_loop cutoff [] = []"
| "expire_loop cutoff (t # ts) = (if t < cutoff then expire_loop cutoff ts else t # ts)"

definition record_detection ::
    "rat \<Rightarrow> string \<Rightarrow> repeat_tracker \<Rightarrow> repeat_tracker \<times> int \<times> bool \<times> rat list" where
  "record_detection now owner t =
     (let hist = dict_get (rt_history t) owner [] @ [now];
          cutoff = now - of_int (rt_window t);
          hist = expire_loop cutoff hist;
          count = int (length hist)
      in (t\<lparr>rt_history := dict_set (rt_history t) owner hist\<rparr>,
          count, rt_threshold t \<le> count, hist))"

definition describe_repeat :: "string \<Rightarrow> rat list \<Rightarrow> string" where
  "describe_repeat owner timestamps =
     (if length timestamps < 2 then []
      else ''REPEAT: detection #'' @ show_nat (length timestamps) @ '' for '' @ owner @
           '' within '' @ fmt_fixed 0 ((last timestamps - hd timestamps) / 60) @ '' min'')"

definition forget_owner :: "string \<Rightarrow> repeat_tracker \<Rightarrow> repeat_tracker" where
  "forget_owner owner t = t\<lparr>rt_history := filter (\<lambda>(o', ts). o' \<noteq> owner) (rt_history t)\<rparr>"

definition active_sources :: "repeat_tracker \<Rightarrow> nat" where
  "active_sources t = length (filter (\<lambda>(owner, ts). ts \<noteq> []) (rt_history t))"

definition tracker_summary :: "repeat_tracker \<Rightarrow> string" where
  "tracker_summary t = ''sources under observation: '' @ show_nat (active_sources t)"

fun run_tracker :: "repeat_tracker \<Rightarrow> (rat \<times> string) list \<Rightarrow> repeat_tracker" where
  "run_tracker t [] = t"
| "run_tracker t ((now, owner) # ds) = run_tracker (fst (record_detection now owner t)) ds"

interpretation detection_window: sliding_window "\<lambda>t. t" expire_loop
  by unfold_locales simp_all

section \<open>The history of an owner\<close>

definition history :: "repeat_tracker \<Rightarrow> string \<Rightarrow> rat list" where
  "history t owner = dict_get (rt_history t) owner []"

lemma record_config [frame]:
  "rt_window (fst (record_detection now owner t)) = rt_window t"
  "rt_threshold (fst (record_detection now owner t)) = rt_threshold t"
  "rt_action (fst (record_detection now owner t)) = rt_action t"
  by (simp_all add: record_detection_def Let_def)

lemma record_history:
  "history (fst (record_detection now owner t)) o' =
     (if o' = owner then expire_loop (now - of_int (rt_window t)) (history t owner @ [now])
      else history t o')"
  by (simp add: record_detection_def history_def Let_def)

lemma record_result:
  "snd (record_detection now owner t) =
     (let hist = history (fst (record_detection now owner t)) owner
      in (int (length hist), rt_threshold t \<le> int (length hist), hist))"
  by (simp add: record_detection_def history_def Let_def)

lemma run_tracker_append: "run_tracker t (a @ b) = run_tracker (run_tracker t a) b"
  by (induction t a rule: run_tracker.induct) simp_all

lemma run_tracker_config [frame]:
  "rt_window (run_tracker t ds) = rt_window t"
  "rt_threshold (run_tracker t ds) = rt_threshold t"
  "rt_action (run_tracker t ds) = rt_action t"
  by (induction t ds rule: run_tracker.induct) (simp_all add: frame)

definition times_of :: "string \<Rightarrow> (rat \<times> string) list \<Rightarrow> rat list" where
  "times_of owner ds = map fst (filter (\<lambda>(now, o'). o' = owner) ds)"

lemma times_of_append [simp]: "times_of owner (a @ b) = times_of owner a @ times_of owner b"
  by (simp add: times_of_def)

lemma run_tracker_history:
  assumes "sorted (times_of owner ds @ [now])"
  shows "expire_loop (now - of_int w) (history (run_tracker (new_tracker w thr act) ds) owner)
       = expire_loop (now - of_int w) (times_of owner ds)"
  using assms
proof (induction ds arbitrary: now rule: rev_induct)
  case Nil
  then show ?case by (simp add: times_of_def history_def new_tracker_def dict_get_def)
next
  case (snoc d ds)
  obtain t o' where d [simp]: "d = (t, o')" by (cases d)
  let ?h = "history (run_tracker (new_tracker w thr act) ds) owner"
  show ?case
  proof (cases "o' = owner")
    case True
    with snoc.prems have "sorted (times_of owner ds @ [t])" "t \<le> now"
      by (auto simp: times_of_def sorted_append)
    then have "expire_loop (t - of_int w) ?h = expire_loop (t - of_int w) (times_of owner ds)"
      by (intro snoc.IH)
    then have "expire_loop (now - of_int w) (?h @ [t]) = expire_loop (now - of_int w) (times_of owner ds @ [t])"
      using \<open>t \<le> now\<close> detection_window.evict_append_evict [of "t - of_int w" "now - of_int w"]
      by (metis diff_right_mono)
    with True \<open>t \<le> now\<close> show ?thesis
      by (simp add: run_tracker_append record_history frame new_tracker_def
          detection_window.evict_twice times_of_def)
  next
    case False
    with snoc show ?thesis
      by (simp add: run_tracker_append record_history times_of_def)
  qed
qed

section \<open>Properties\<close>

text \<open>C16. Escalation is a windowed count per owner: after any history of detections (whose
  clock readings for that owner do not decrease), recording one more reports exactly the number
  of the owner's detections inside the window that ends now, this one included, returns their
  times, and escalates exactly when that number reaches the threshold.\<close>
theorem escalation_counts_window:
  assumes "sorted (times_of owner ds @ [now])"
  shows "snd (record_detection now owner (run_tracker (new_tracker w thr act) ds)) =
     (let recent = filter (\<lambda>t. now - of_int w \<le> t) (times_of owner ds @ [now])
      in (int (length recent), thr \<le> int (length recent), recent))"
proof -
  let ?t = "run_tracker (new_tracker w thr act) ds"
  have config: "rt_window ?t = w" "rt_threshold ?t = thr"
    by (simp_all add: frame) (simp_all add: new_tracker_def)
  have "expire_loop (now - of_int w) (history ?t owner @ [now])
      = expire_loop (now - of_int w) (times_of owner ds @ [now])"
    using run_tracker_history [OF assms] detection_window.evict_append_evict
    by (metis order_refl)
  also have "\<dots> = filter (\<lambda>t. now - of_int w \<le> t) (times_of owner ds @ [now])"
    using detection_window.evict_sorted [of "times_of owner ds @ [now]"] assms by simp
  finally show ?thesis
    by (simp only: record_result record_history config simp_thms if_True Let_def)
qed

text \<open>Witness of C16: with the shipped window of ten minutes and threshold of three, the third
  detection of a deployment within ten minutes escalates; the detection of another owner in
  between does not count.\<close>
theorem escalation_counts_window_witness:
  "snd (record_detection 500 ''prod/ReplicaSet/app''
      (run_tracker (new_tracker 600 3 (YStr ''alert''))
         [(0, ''prod/ReplicaSet/app''), (10, ''prod/db-0''), (200, ''prod/ReplicaSet/app'')]))
   = (3, True, [0, 200, 500])"
  using escalation_counts_window [of "''prod/ReplicaSet/app''"
      "[(0, ''prod/ReplicaSet/app''), (10, ''prod/db-0''), (200, ''prod/ReplicaSet/app'')]" 500
      600 3 "YStr ''alert''"]
  by (simp add: times_of_def)

end
