(* ===== verification/Metrics.thy ===== *)
theory Metrics
  imports Utf8 "HOL-Library.List_Lexorder" "HOL-Library.Product_Lexorder" "HOL-Library.Char_ord"
begin

text \<open>
  \<open>core/metrics.py\<close>: the collector's state, its updates, the Prometheus text it renders and the
  HTTP handler's answer. Every operation of the class holds the collector's lock from its first to
  its last statement, so an operation is one step of the model. \<open>inc\<close> is called with six counter
  names, the constructors of \<open>counter\<close>.
\<close>

section \<open>State and updates\<close>

record metrics =
  mt_node :: string
  mt_started :: rat
  mt_events_total :: int
  mt_events_dropped :: int
  mt_events_filtered :: int
  mt_events_passed :: int
  mt_killed_in_kernel :: int
  mt_cgroup_kills :: int
  mt_api_deletes :: int
  mt_api_errors :: int
  mt_events_emitted :: int
  mt_resolve_failures :: int
  mt_detections :: "((string \<times> string) \<times> int) list"
  mt_escalations :: "(string \<times> int) list"
  mt_latency_sum :: rat
  mt_latency_count :: int
  mt_latency_max :: rat
  mt_cgroup_classes :: "(string \<times> int) list"
  mt_armed_count :: int
  mt_repeat_sources :: int
  mt_cache_entries :: "(string \<times> int) list"
  mt_last_sync_ms :: rat

definition new_metrics :: "string \<Rightarrow> rat \<Rightarrow> metrics" where
  "new_metrics node now =
     \<lparr>mt_node = node, mt_started = now, mt_events_total = 0, mt_events_dropped = 0,
      mt_events_filtered = 0, mt_events_passed = 0, mt_killed_in_kernel = 0, mt_cgroup_kills = 0,
      mt_api_deletes = 0, mt_api_errors = 0, mt_events_emitted = 0, mt_resolve_failures = 0,
      mt_detections = [], mt_escalations = [], mt_latency_sum = 0, mt_latency_count = 0,
      mt_latency_max = 0, mt_cgroup_classes = [], mt_armed_count = 0, mt_repeat_sources = 0,
      mt_cache_entries = [], mt_last_sync_ms = 0\<rparr>"

definition metrics_on_event :: "rat \<Rightarrow> bool \<Rightarrow> metrics \<Rightarrow> metrics" where
  "metrics_on_event latency_ms passed m =
     (let m = m\<lparr>mt_events_total := mt_events_total m + 1,
                mt_latency_sum := mt_latency_sum m + latency_ms,
                mt_latency_count := mt_latency_count m + 1\<rparr>;
          m = (if mt_latency_max m < latency_ms then m\<lparr>mt_latency_max := latency_ms\<rparr> else m)
      in if passed then m\<lparr>mt_events_passed := mt_events_passed m + 1\<rparr>
         else m\<lparr>mt_events_filtered := mt_events_filtered m + 1\<rparr>)"

definition metrics_on_lost :: "int \<Rightarrow> metrics \<Rightarrow> metrics" where
  "metrics_on_lost count m = m\<lparr>mt_events_dropped := mt_events_dropped m + count\<rparr>"

definition or_unknown :: "string \<Rightarrow> string" where
  "or_unknown namespace = (if namespace = [] then ''unknown'' else namespace)"

definition metrics_on_detection :: "string \<Rightarrow> string \<Rightarrow> metrics \<Rightarrow> metrics" where
  "metrics_on_detection namespace decision m =
     (let key = (or_unknown namespace, decision)
      in m\<lparr>mt_detections := dict_set (mt_detections m) key (dict_get (mt_detections m) key 0 + 1)\<rparr>)"

definition metrics_on_escalation :: "string \<Rightarrow> metrics \<Rightarrow> metrics" where
  "metrics_on_escalation namespace m =
     (let ns = or_unknown namespace
      in m\<lparr>mt_escalations := dict_set (mt_escalations m) ns (dict_get (mt_escalations m) ns 0 + 1)\<rparr>)"

datatype counter =
    Killed_in_kernel | Cgroup_kills | Api_deletes | Api_errors | Events_emitted | Resolve_failures

fun metrics_inc :: "counter \<Rightarrow> int \<Rightarrow> metrics \<Rightarrow> metrics" where
  "metrics_inc Killed_in_kernel n m = m\<lparr>mt_killed_in_kernel := mt_killed_in_kernel m + n\<rparr>"
| "metrics_inc Cgroup_kills n m = m\<lparr>mt_cgroup_kills := mt_cgroup_kills m + n\<rparr>"
| "metrics_inc Api_deletes n m = m\<lparr>mt_api_deletes := mt_api_deletes m + n\<rparr>"
| "metrics_inc Api_errors n m = m\<lparr>mt_api_errors := mt_api_errors m + n\<rparr>"
| "metrics_inc Events_emitted n m = m\<lparr>mt_events_emitted := mt_events_emitted m + n\<rparr>"
| "metrics_inc Resolve_failures n m = m\<lparr>mt_resolve_failures := mt_resolve_failures m + n\<rparr>"

definition metrics_set_gauges ::
    "int \<Rightarrow> (string \<times> int) list \<Rightarrow> (string \<times> int) list \<Rightarrow> int \<Rightarrow> rat \<Rightarrow> metrics \<Rightarrow> metrics" where
  "metrics_set_gauges armed_count cgroup_classes cache_entries repeat_sources last_sync_ms m =
     m\<lparr>mt_armed_count := armed_count, mt_cgroup_classes := cgroup_classes,
       mt_cache_entries := cache_entries, mt_repeat_sources := repeat_sources,
       mt_last_sync_ms := last_sync_ms\<rparr>"

section \<open>Rendering\<close>

definition version :: string where
  "version = ''0.5''"

definition quoted :: "string \<Rightarrow> string" where
  "quoted s = CHR 0x22 # s @ [CHR 0x22]"

definition label :: "string \<Rightarrow> string \<Rightarrow> string" where
  "label key v = key @ ''='' @ quoted v"

definition help_line :: "string \<Rightarrow> string \<Rightarrow> string" where
  "help_line name text = ''# HELP '' @ name @ '' '' @ text"

definition type_line :: "string \<Rightarrow> string \<Rightarrow> string" where
  "type_line name kind = ''# TYPE '' @ name @ '' '' @ kind"

definition sample :: "string \<Rightarrow> string list \<Rightarrow> string \<Rightarrow> string" where
  "sample name labels v = name @ ''{'' @ join '','' labels @ ''} '' @ v"

definition sorted_items :: "('k::linorder \<times> int) list \<Rightarrow> ('k \<times> int) list" where
  "sorted_items d = sort_key fst d"

definition render_lines :: "rat \<Rightarrow> metrics \<Rightarrow> string list" where
  "render_lines now m =
     (let n = label ''node'' (mt_node m) in
      [help_line ''kubewarden_up'' ''the agent is running'',
       type_line ''kubewarden_up'' ''gauge'',
       sample ''kubewarden_up'' [n] ''1'',
       help_line ''kubewarden_info'' ''agent version'',
       type_line ''kubewarden_info'' ''gauge'',
       sample ''kubewarden_info'' [n, label ''version'' version] ''1'',
       help_line ''kubewarden_uptime_seconds'' ''seconds since start'',
       type_line ''kubewarden_uptime_seconds'' ''gauge'',
       sample ''kubewarden_uptime_seconds'' [n] (fmt_fixed 0 (now - mt_started m)),
       help_line ''kubewarden_events_total'' ''events delivered from the kernel'',
       type_line ''kubewarden_events_total'' ''counter'',
       sample ''kubewarden_events_total'' [n] (show_int (mt_events_total m)),
       help_line ''kubewarden_events_dropped_total'' ''perf buffer losses'',
       type_line ''kubewarden_events_dropped_total'' ''counter'',
       sample ''kubewarden_events_dropped_total'' [n] (show_int (mt_events_dropped m)),
       help_line ''kubewarden_events_filtered_total'' ''dropped by user space filters'',
       type_line ''kubewarden_events_filtered_total'' ''counter'',
       sample ''kubewarden_events_filtered_total'' [n] (show_int (mt_events_filtered m)),
       help_line ''kubewarden_events_passed_total'' ''reached correlation'',
       type_line ''kubewarden_events_passed_total'' ''counter'',
       sample ''kubewarden_events_passed_total'' [n] (show_int (mt_events_passed m)),
       help_line ''kubewarden_detections_total'' ''detection hits'',
       type_line ''kubewarden_detections_total'' ''counter''] @
      map (\<lambda>((ns, dec), cnt).
             sample ''kubewarden_detections_total'' [n, label ''namespace'' ns, label ''decision'' dec]
               (show_int cnt)) (sorted_items (mt_detections m)) @
      [help_line ''kubewarden_escalations_total'' ''repeat escalations'',
       type_line ''kubewarden_escalations_total'' ''counter''] @
      map (\<lambda>(ns, cnt).
             sample ''kubewarden_escalations_total'' [n, label ''namespace'' ns] (show_int cnt))
        (sorted_items (mt_escalations m)) @
      [help_line ''kubewarden_kills_total'' ''response actions performed'',
       type_line ''kubewarden_kills_total'' ''counter'',
       sample ''kubewarden_kills_total'' [n, label ''method'' ''kernel_signal''] (show_int (mt_killed_in_kernel m)),
       sample ''kubewarden_kills_total'' [n, label ''method'' ''cgroup_kill''] (show_int (mt_cgroup_kills m)),
       sample ''kubewarden_kills_total'' [n, label ''method'' ''api_delete''] (show_int (mt_api_deletes m)),
       help_line ''kubewarden_api_errors_total'' ''API server call errors'',
       type_line ''kubewarden_api_errors_total'' ''counter'',
       sample ''kubewarden_api_errors_total'' [n] (show_int (mt_api_errors m)),
       help_line ''kubewarden_events_emitted_total'' ''Kubernetes Events created'',
       type_line ''kubewarden_events_emitted_total'' ''counter'',
       sample ''kubewarden_events_emitted_total'' [n] (show_int (mt_events_emitted m)),
       help_line ''kubewarden_resolve_failures_total'' ''cgroup could not be matched to a pod'',
       type_line ''kubewarden_resolve_failures_total'' ''counter'',
       sample ''kubewarden_resolve_failures_total'' [n] (show_int (mt_resolve_failures m)),
       help_line ''kubewarden_event_latency_seconds'' ''delivery latency from the kernel'',
       type_line ''kubewarden_event_latency_seconds'' ''summary'',
       sample ''kubewarden_event_latency_seconds_sum'' [n] (fmt_fixed 6 (mt_latency_sum m / 1000)),
       sample ''kubewarden_event_latency_seconds_count'' [n] (show_int (mt_latency_count m)),
       help_line ''kubewarden_event_latency_max_seconds'' ''all-time maximum'',
       type_line ''kubewarden_event_latency_max_seconds'' ''gauge'',
       sample ''kubewarden_event_latency_max_seconds'' [n] (fmt_fixed 6 (mt_latency_max m / 1000)),
       help_line ''kubewarden_cgroups'' ''cgroup classification in the BPF map'',
       type_line ''kubewarden_cgroups'' ''gauge''] @
      map (\<lambda>(cls, cnt). sample ''kubewarden_cgroups'' [n, label ''class'' cls] (show_int cnt))
        (sorted_items (mt_cgroup_classes m)) @
      [help_line ''kubewarden_armed_cgroups'' ''armed cgroups'',
       type_line ''kubewarden_armed_cgroups'' ''gauge'',
       sample ''kubewarden_armed_cgroups'' [n] (show_int (mt_armed_count m)),
       help_line ''kubewarden_repeat_sources'' ''sources tracked for repeats'',
       type_line ''kubewarden_repeat_sources'' ''gauge'',
       sample ''kubewarden_repeat_sources'' [n] (show_int (mt_repeat_sources m)),
       help_line ''kubewarden_cache_entries'' ''entries in the resolver caches'',
       type_line ''kubewarden_cache_entries'' ''gauge''] @
      map (\<lambda>(kind, cnt). sample ''kubewarden_cache_entries'' [n, label ''cache'' kind] (show_int cnt))
        (sorted_items (mt_cache_entries m)) @
      [help_line ''kubewarden_cgroup_sync_duration_seconds'' ''cgroupfs scan duration'',
       type_line ''kubewarden_cgroup_sync_duration_seconds'' ''gauge'',
       sample ''kubewarden_cgroup_sync_duration_seconds'' [n] (fmt_fixed 4 (mt_last_sync_ms m / 1000))])"

definition render :: "rat \<Rightarrow> metrics \<Rightarrow> string" where
  "render now m = join [CHR 0x0A] (render_lines now m) @ [CHR 0x0A]"

section \<open>The HTTP handler\<close>

record http_response =
  http_status :: nat
  http_headers :: "(string \<times> string) list"
  http_body :: string

definition do_GET :: "rat \<Rightarrow> metrics \<Rightarrow> string \<Rightarrow> http_response" where
  "do_GET now m path =
     (if path \<in> {''/metrics'', ''/''} then
        (let body = render now m
         in \<lparr>http_status = 200,
             http_headers = [(''Content-Type'', ''text/plain; version=0.0.4''),
                             (''Content-Length'', show_nat (length body))],
             http_body = body\<rparr>)
      else if path = ''/healthz'' then
        \<lparr>http_status = 200, http_headers = [], http_body = ''ok'' @ [CHR 0x0A]\<rparr>
      else \<lparr>http_status = 404, http_headers = [], http_body = []\<rparr>)"

section \<open>Accounting\<close>

datatype metric_update =
    OnEvent rat bool
  | OnLost int
  | OnDetection string string
  | OnEscalation string
  | Increment counter int
  | SetGauges int "(string \<times> int) list" "(string \<times> int) list" int rat

fun apply_update :: "metric_update \<Rightarrow> metrics \<Rightarrow> metrics" where
  "apply_update (OnEvent latency passed) m = metrics_on_event latency passed m"
| "apply_update (OnLost n) m = metrics_on_lost n m"
| "apply_update (OnDetection ns d) m = metrics_on_detection ns d m"
| "apply_update (OnEscalation ns) m = metrics_on_escalation ns m"
| "apply_update (Increment c n) m = metrics_inc c n m"
| "apply_update (SetGauges armed classes entries sources ms) m =
     metrics_set_gauges armed classes entries sources ms m"

fun run_updates :: "metric_update list \<Rightarrow> metrics \<Rightarrow> metrics" where
  "run_updates [] m = m"
| "run_updates (u # us) m = run_updates us (apply_update u m)"

definition metrics_ok :: "metrics \<Rightarrow> bool" where
  "metrics_ok m =
     (mt_events_total m = mt_events_passed m + mt_events_filtered m \<and>
      mt_latency_count m = mt_events_total m \<and> 0 \<le> mt_latency_count m \<and> 0 \<le> mt_latency_max m \<and>
      mt_latency_sum m \<le> of_int (mt_latency_count m) * mt_latency_max m)"

lemma metrics_inc_ok: "metrics_ok (metrics_inc c n m) = metrics_ok m"
  by (cases c) (simp_all add: metrics_ok_def)

lemma latency_bound:
  fixes s k mx l :: rat
  assumes "s \<le> k * mx" "0 \<le> k"
  shows "s + l \<le> (k + 1) * max mx l"
proof -
  have "k * mx \<le> k * max mx l" using assms(2) by (intro mult_left_mono) auto
  with assms(1) have "s \<le> k * max mx l" by (rule order_trans)
  then have "s + l \<le> k * max mx l + max mx l" by (rule add_mono) simp
  then show ?thesis by (simp add: distrib_right)
qed

lemma metrics_other_ok:
  "metrics_ok (metrics_on_lost n m) = metrics_ok m"
  "metrics_ok (metrics_on_detection ns d m) = metrics_ok m"
  "metrics_ok (metrics_on_escalation ns m) = metrics_ok m"
  "metrics_ok (metrics_set_gauges armed classes entries sources ms m) = metrics_ok m"
  by (simp_all add: metrics_ok_def metrics_on_lost_def metrics_on_detection_def
      metrics_on_escalation_def metrics_set_gauges_def Let_def)

lemma metrics_on_event_ok:
  assumes "metrics_ok m"
  shows "metrics_ok (metrics_on_event latency passed m)"
proof -
  have "mt_latency_sum m + latency
      \<le> (of_int (mt_latency_count m) + 1) * max (mt_latency_max m) latency"
    using assms by (intro latency_bound) (auto simp: metrics_ok_def)
  with assms show ?thesis
    by (auto simp: metrics_on_event_def Let_def metrics_ok_def max_def split: if_splits)
qed

lemma apply_update_ok: "metrics_ok m \<Longrightarrow> metrics_ok (apply_update u m)"
  by (cases u)
    (simp_all add: metrics_on_event_ok metrics_inc_ok metrics_other_ok)

lemma run_updates_ok: "metrics_ok m \<Longrightarrow> metrics_ok (run_updates us m)"
  by (induction us m rule: run_updates.induct) (simp_all add: apply_update_ok)

lemma new_metrics_ok: "metrics_ok (new_metrics node now)"
  by (simp add: metrics_ok_def new_metrics_def)

definition detection_count :: "string \<Rightarrow> string \<Rightarrow> metrics \<Rightarrow> int" where
  "detection_count ns d m = dict_get (mt_detections m) (ns, d) 0"

lemma detections_unchanged:
  "mt_detections (metrics_on_event latency passed m) = mt_detections m"
  "mt_detections (metrics_inc c n m) = mt_detections m"
  by (auto simp: metrics_on_event_def Let_def) (cases c; simp)

lemma detection_count_update:
  "detection_count ns d (apply_update u m) =
     detection_count ns d m +
     (case u of OnDetection ns' d' \<Rightarrow> if or_unknown ns' = ns \<and> d' = d then 1 else 0 | _ \<Rightarrow> 0)"
  by (cases u)
    (auto simp: detection_count_def detections_unchanged metrics_on_lost_def metrics_on_detection_def
      metrics_on_escalation_def metrics_set_gauges_def Let_def)

section \<open>Reading the exposition back\<close>

definition one_line :: "string \<Rightarrow> bool" where
  "one_line s = (CHR 0x0A \<notin> set s)"

text \<open>What a scraper does: the value on the first line that starts with the series' name and labels.\<close>

definition scrape :: "string \<Rightarrow> string list \<Rightarrow> string \<Rightarrow> string option" where
  "scrape name labels text =
     map_option (drop (length (sample name labels [])))
       (find (\<lambda>l. startswith l (sample name labels [])) (split_on (CHR 0x0A) text))"

lemma split_on_append:
  "c \<notin> set a \<Longrightarrow> split_on c (a @ c # b) = a # split_on c b"
  by (induction a) auto

lemma split_on_self: "c \<notin> set a \<Longrightarrow> split_on c a = [a]"
  by (induction a) auto

lemma split_join:
  "ls \<noteq> [] \<Longrightarrow> list_all one_line ls \<Longrightarrow>
     split_on (CHR 0x0A) (join [CHR 0x0A] ls @ [CHR 0x0A]) = ls @ [[]]"
proof (induction "[CHR 0x0A]" ls rule: join.induct)
  case (2 x)
  then show ?case using split_on_append [of "CHR 0x0A" x "[]"] by (simp add: one_line_def)
next
  case (3 x y ys)
  then show ?case by (simp add: one_line_def split_on_append)
qed simp

lemma digit_char_one_line: "d < 10 \<Longrightarrow> CHR 0x0A \<noteq> digit_char d"
  by (auto simp: digit_char_def numeral_eq_Suc less_Suc_eq)

lemma show_nat_one_line [simp]: "one_line (show_nat n)"
proof (induction n rule: show_nat.induct)
  case (1 n)
  then show ?case
    by (subst show_nat.simps) (auto simp: one_line_def digit_char_one_line)
qed

lemma one_line_append [simp]: "one_line (a @ b) \<longleftrightarrow> one_line a \<and> one_line b"
  by (simp add: one_line_def)

lemma one_line_Nil [simp]: "one_line []"
  by (simp add: one_line_def)

lemma one_line_Cons [simp]: "one_line (c # s) \<longleftrightarrow> c \<noteq> CHR 0x0A \<and> one_line s"
  by (auto simp: one_line_def)

lemma show_int_one_line [simp]: "one_line (show_int i)"
  by (simp add: show_int_def)

lemma fmt_fixed_one_line [simp]: "one_line (fmt_fixed k r)"
  by (simp add: fmt_fixed_def Let_def zero_pad_def one_line_def [of "replicate _ _"])

lemma one_line_sample [simp]:
  "one_line (sample name labels v) \<longleftrightarrow> one_line name \<and> one_line (join '','' labels) \<and> one_line v"
  by (simp add: sample_def)

lemma one_line_label [simp]: "one_line (label k v) \<longleftrightarrow> one_line k \<and> one_line v"
  by (simp add: label_def quoted_def)

text \<open>Label values that stay on their line, as node and namespace names do.\<close>

definition labels_one_line :: "metrics \<Rightarrow> bool" where
  "labels_one_line m =
     (one_line (mt_node m) \<and>
      list_all (\<lambda>((ns, d), n). one_line ns \<and> one_line d) (mt_detections m) \<and>
      list_all (\<lambda>(ns, n). one_line ns) (mt_escalations m) \<and>
      list_all (\<lambda>(c, n). one_line c) (mt_cgroup_classes m) \<and>
      list_all (\<lambda>(c, n). one_line c) (mt_cache_entries m))"

lemma render_lines_one_line: "labels_one_line m \<Longrightarrow> list_all one_line (render_lines now m)"
  by (auto simp: render_lines_def Let_def labels_one_line_def list_all_iff sorted_items_def
      help_line_def type_line_def version_def)

lemma split_render:
  assumes "labels_one_line m"
  shows "split_on (CHR 0x0A) (render now m) = render_lines now m @ [[]]"
  unfolding render_def using render_lines_one_line [OF assms]
  by (rule split_join [rotated]) (simp add: render_lines_def Let_def)

text \<open>A series of its own: no line before it starts the same way.\<close>

lemma scrape_events_total:
  assumes "labels_one_line m"
  shows "scrape ''kubewarden_events_total'' [label ''node'' (mt_node m)] (render now m)
    = Some (show_int (mt_events_total m))"
  by (simp add: scrape_def split_render [OF assms])
    (simp add: render_lines_def Let_def help_line_def type_line_def sample_def startswith_prefix)

text \<open>The detections form the only part of the exposition whose lines start with their name.\<close>

definition detection_line :: "metrics \<Rightarrow> (string \<times> string) \<times> int \<Rightarrow> string" where
  "detection_line m = (\<lambda>((ns, dec), cnt).
     sample ''kubewarden_detections_total''
       [label ''node'' (mt_node m), label ''namespace'' ns, label ''decision'' dec] (show_int cnt))"

lemma render_detections:
  "\<exists>before after. render_lines now m = before @ map (detection_line m) (sorted_items (mt_detections m)) @ after \<and>
     list_all (\<lambda>l. \<not> prefix ''kubewarden_detections_total'' l) before"
  unfolding render_lines_def Let_def detection_line_def append_assoc
  by (rule exI, rule exI, rule conjI, rule refl)
    (simp add: help_line_def type_line_def sample_def)

lemma prefix_until:
  "c \<notin> set a \<Longrightarrow> c \<notin> set b \<Longrightarrow> prefix (a @ c # r) (b @ c # s) \<longleftrightarrow> a = b \<and> prefix r s"
proof (induction a arbitrary: b)
  case Nil
  then show ?case by (cases b) auto
next
  case (Cons x a)
  then show ?case by (cases b) auto
qed

definition quote_free :: "string \<Rightarrow> bool" where
  "quote_free s = (CHR 0x22 \<notin> set s)"

lemma detection_line_matches:
  assumes "quote_free ns" "quote_free d" "quote_free ns'" "quote_free d'"
  shows "startswith (detection_line m ((ns', d'), n))
     (sample ''kubewarden_detections_total''
       [label ''node'' (mt_node m), label ''namespace'' ns, label ''decision'' d] [])
     \<longleftrightarrow> ns = ns' \<and> d = d'"
  using assms
  by (simp add: detection_line_def startswith_prefix sample_def label_def quoted_def quote_free_def prefix_until)

lemma find_append_skip: "list_all (\<lambda>x. \<not> P x) xs \<Longrightarrow> find P (xs @ ys) = find P ys"
  by (induction xs) auto

lemma find_map_unique:
  assumes "x \<in> set xs" "\<forall>y \<in> set xs. P (f y) \<longleftrightarrow> y = x"
  shows "find P (map f xs @ ys) = Some (f x)"
  using assms by (induction xs) auto

lemma sample_prefix: "prefix (sample name labels v) l \<Longrightarrow> prefix name l"
  unfolding sample_def by (rule append_prefixD)

lemma sample_append: "sample name labels v = sample name labels [] @ v"
  by (simp add: sample_def)

lemma drop_sample: "drop (length (sample name labels [])) (sample name labels v) = v"
  using sample_append [of name labels v] by (metis append_eq_conv_conj)

lemma scrape_detection:
  assumes "labels_one_line m" and "distinct (map fst (mt_detections m))"
    and "\<forall>((ns, d), n) \<in> set (mt_detections m). quote_free ns \<and> quote_free d"
    and "((ns, d), n) \<in> set (mt_detections m)"
  shows "scrape ''kubewarden_detections_total''
       [label ''node'' (mt_node m), label ''namespace'' ns, label ''decision'' d] (render now m)
     = Some (show_int n)"
proof -
  define P where "P = (\<lambda>l. startswith l (sample ''kubewarden_detections_total''
       [label ''node'' (mt_node m), label ''namespace'' ns, label ''decision'' d] []))"
  obtain before rest where r: "render_lines now m
      = before @ map (detection_line m) (sorted_items (mt_detections m)) @ rest"
    and b: "list_all (\<lambda>l. \<not> prefix ''kubewarden_detections_total'' l) before"
    using render_detections by blast
  have skip: "list_all (\<lambda>l. \<not> P l) before"
    using b by (auto simp: list_all_iff P_def startswith_prefix dest: sample_prefix)
  have "\<forall>y \<in> set (sorted_items (mt_detections m)). P (detection_line m y) \<longleftrightarrow> y = ((ns, d), n)"
  proof
    fix y assume "y \<in> set (sorted_items (mt_detections m))"
    then have y: "y \<in> set (mt_detections m)" by (simp add: sorted_items_def)
    obtain ns' d' n' where "y = ((ns', d'), n')" by (metis prod.collapse)
    with y assms(2-4) show "P (detection_line m y) \<longleftrightarrow> y = ((ns, d), n)"
      using detection_line_matches [of ns d ns' d' m n'] eq_key_imp_eq_value [OF assms(2), of "(ns, d)" n n']
      unfolding P_def by fastforce
  qed
  then have "find P (render_lines now m @ [[]]) = Some (detection_line m ((ns, d), n))"
    using assms(4) unfolding r by (simp add: find_append_skip [OF skip] find_map_unique sorted_items_def)
  then have "map_option (drop (length (sample ''kubewarden_detections_total''
       [label ''node'' (mt_node m), label ''namespace'' ns, label ''decision'' d] [])))
      (find P (render_lines now m @ [[]])) = Some (show_int n)"
    by (simp only: option.map detection_line_def prod.case drop_sample)
  then show ?thesis unfolding scrape_def P_def split_render [OF assms(1)] .
qed

text \<open>What every update keeps of the dictionaries that end up in the exposition.\<close>

fun update_labels_ok :: "metric_update \<Rightarrow> bool" where
  "update_labels_ok (OnDetection ns d) = (one_line ns \<and> quote_free ns \<and> one_line d \<and> quote_free d)"
| "update_labels_ok (OnEscalation ns) = one_line ns"
| "update_labels_ok (SetGauges armed classes entries sources ms) =
     (list_all (\<lambda>(c, n). one_line c) classes \<and> list_all (\<lambda>(c, n). one_line c) entries)"
| "update_labels_ok _ = True"

definition exposition_ok :: "metrics \<Rightarrow> bool" where
  "exposition_ok m =
     (labels_one_line m \<and> distinct (map fst (mt_detections m)) \<and>
      (\<forall>((ns, d), n) \<in> set (mt_detections m). quote_free ns \<and> quote_free d))"

lemma or_unknown_ok: "one_line ns \<Longrightarrow> one_line (or_unknown ns)"
  "quote_free ns \<Longrightarrow> quote_free (or_unknown ns)"
  by (simp_all add: or_unknown_def quote_free_def)

lemma metrics_inc_frame:
  "mt_node (metrics_inc c n m) = mt_node m" "mt_escalations (metrics_inc c n m) = mt_escalations m"
  "mt_cgroup_classes (metrics_inc c n m) = mt_cgroup_classes m"
  "mt_cache_entries (metrics_inc c n m) = mt_cache_entries m"
  by (cases c; simp)+

lemma metrics_on_event_frame:
  "mt_node (metrics_on_event l b m) = mt_node m" "mt_escalations (metrics_on_event l b m) = mt_escalations m"
  "mt_cgroup_classes (metrics_on_event l b m) = mt_cgroup_classes m"
  "mt_cache_entries (metrics_on_event l b m) = mt_cache_entries m"
  by (simp_all add: metrics_on_event_def Let_def)

lemma exposition_ok_update:
  assumes "exposition_ok m" and "update_labels_ok u"
  shows "exposition_ok (apply_update u m)"
proof (cases u)
  case (OnDetection ns d)
  with assms show ?thesis
    by (auto simp: exposition_ok_def labels_one_line_def metrics_on_detection_def Let_def list_all_iff
        distinct_dict_set or_unknown_ok dest!: in_set_dict_set)
next
  case (OnEscalation ns)
  with assms show ?thesis
    by (auto simp: exposition_ok_def labels_one_line_def metrics_on_escalation_def Let_def list_all_iff
        or_unknown_ok dest!: in_set_dict_set)
qed (use assms in \<open>simp_all add: exposition_ok_def labels_one_line_def metrics_on_event_frame
  metrics_inc_frame detections_unchanged metrics_on_lost_def metrics_set_gauges_def\<close>)

lemma exposition_ok_run:
  "exposition_ok m \<Longrightarrow> list_all update_labels_ok us \<Longrightarrow> exposition_ok (run_updates us m)"
  by (induction us arbitrary: m) (simp_all add: exposition_ok_update)

lemma exposition_ok_new: "one_line node \<Longrightarrow> exposition_ok (new_metrics node t)"
  by (simp add: exposition_ok_def labels_one_line_def new_metrics_def)

lemma node_update [simp]: "mt_node (apply_update u m) = mt_node m"
  by (cases u)
    (simp_all add: metrics_on_event_frame metrics_inc_frame metrics_on_lost_def metrics_on_detection_def
      metrics_on_escalation_def metrics_set_gauges_def Let_def)

lemma node_run [simp]: "mt_node (run_updates us m) = mt_node m"
  by (induction us arbitrary: m) simp_all

definition counts_as :: "string \<Rightarrow> string \<Rightarrow> metric_update \<Rightarrow> bool" where
  "counts_as ns d u = (case u of OnDetection ns' d' \<Rightarrow> or_unknown ns' = ns \<and> d' = d | _ \<Rightarrow> False)"

lemma detection_count_run:
  "detection_count ns d (run_updates us m) =
     detection_count ns d m + int (length (filter (counts_as ns d) us))"
  by (induction us arbitrary: m)
    (auto simp: detection_count_update counts_as_def split: metric_update.splits)

lemma detection_countD:
  "detection_count ns d m \<noteq> 0 \<Longrightarrow> ((ns, d), detection_count ns d m) \<in> set (mt_detections m)"
  by (auto simp: detection_count_def dict_get_def split: option.splits dest: map_of_SomeD)

section \<open>Properties\<close>

text \<open>The counters agree with each other after any sequence of updates: every event was either
  passed or filtered, the latency count is the event count, and the mean latency never exceeds the
  exported maximum.\<close>
lemma counters_consistent:
  "metrics_ok (run_updates us (new_metrics node now))"
  by (rule run_updates_ok [OF new_metrics_ok])

text \<open>C35. What Prometheus reads is what happened: after any sequence of updates whose labels keep to
  one line and contain no quote, scraping the rendered page for a namespace and decision returns
  the number of detections recorded for them.\<close>
theorem scraped_detections_exact:
  assumes "one_line node" and "list_all update_labels_ok us"
    and "filter (counts_as ns d) us \<noteq> []"
  shows "scrape ''kubewarden_detections_total''
      [label ''node'' node, label ''namespace'' ns, label ''decision'' d]
      (render now (run_updates us (new_metrics node started)))
    = Some (show_int (int (length (filter (counts_as ns d) us))))"
proof -
  let ?m = "run_updates us (new_metrics node started)"
  have ok: "exposition_ok ?m"
    by (rule exposition_ok_run [OF exposition_ok_new [OF assms(1)] assms(2)])
  have "detection_count ns d (new_metrics node started) = 0"
    by (simp add: detection_count_def new_metrics_def dict_get_def)
  then have count: "detection_count ns d ?m = int (length (filter (counts_as ns d) us))"
    by (simp add: detection_count_run)
  then have "((ns, d), int (length (filter (counts_as ns d) us))) \<in> set (mt_detections ?m)"
    using detection_countD [of ns d ?m] assms(3) by simp
  with ok show ?thesis
    using scrape_detection [of ?m ns d] by (simp add: exposition_ok_def new_metrics_def)
qed

text \<open>Witness of C35: two kills in one namespace around a warning in another.\<close>
theorem scraped_detections_exact_witness:
  "scrape ''kubewarden_detections_total''
      [label ''node'' ''worker-1'', label ''namespace'' ''prod'', label ''decision'' ''KILL'']
      (render 60 (run_updates [OnDetection ''prod'' ''KILL'', OnDetection [] ''WARN'', OnDetection ''prod'' ''KILL'']
         (new_metrics ''worker-1'' 0)))
    = Some (show_int 2)"
  using scraped_detections_exact [of "''worker-1''"
      "[OnDetection ''prod'' ''KILL'', OnDetection [] ''WARN'', OnDetection ''prod'' ''KILL'']" "''prod''" "''KILL''" 60 0]
  by (simp add: counts_as_def or_unknown_def quote_free_def)

end
