(* ===== verification/Killer.thy ===== *)
theory Killer
  imports Resolver Repeat Metrics
begin

text \<open>
  \<open>core/k8s_killer.py\<close>: the path from a KILL verdict to the pod's death. The resolver and the
  metrics collector are objects the killer shares with the rest of the agent (\<open>shared\<close>), together
  with what the outside world sees of the agent: the \<open>cgroup.kill\<close> files written, the Kubernetes
  Events created, the log. The Kubernetes client is a library: what its calls answer is in the
  environment \<open>kenv\<close>, and a created Event is an effect.
\<close>

section \<open>Effects\<close>

datatype level = Info | Warning | Error | Critical

record k8s_event =
  kv_generate_name :: string
  kv_kind :: string
  kv_name :: string
  kv_namespace :: string
  kv_reason :: string
  kv_message :: string
  kv_type :: string
  kv_component :: string
  kv_count :: int

datatype effect =
    KillCgroup string
  | CreateEvent string k8s_event
  | Log level string

record shared =
  sh_resolver :: resolver
  sh_metrics :: "metrics option"
  sh_effects :: "effect list"

definition add_effect :: "effect \<Rightarrow> shared \<Rightarrow> shared" where
  "add_effect f sh = sh\<lparr>sh_effects := sh_effects sh @ [f]\<rparr>"

definition log_msg :: "level \<Rightarrow> string \<Rightarrow> shared \<Rightarrow> shared" where
  "log_msg lvl msg sh = add_effect (Log lvl msg) sh"

definition on_metrics :: "(metrics \<Rightarrow> metrics) \<Rightarrow> shared \<Rightarrow> shared" where
  "on_metrics f sh = sh\<lparr>sh_metrics := map_option f (sh_metrics sh)\<rparr>"

text \<open>The UTF-8 bytes of the dash in the messages.\<close>

definition em_dash :: string where
  "em_dash = [CHR 0xE2, CHR 0x80, CHR 0x94]"

section \<open>State\<close>

text \<open>
  The queue of the API workers, oldest task first, and the set of pods in flight. \<open>kenv\<close> is what
  one call meets: the pod API, the file system, the clock, whether creating the Event raises and
  what an exception prints as.
\<close>

type_synonym task_item = "string \<times> string \<times> string"

record killer =
  ki_dry_run :: bool
  ki_exclude :: "string list"
  ki_warn_only :: "string list"
  ki_repeat :: "repeat_tracker option"
  ki_queue :: "task_item list"
  ki_in_flight :: "(string \<times> string) list"

record kenv =
  ke_core_v1 :: pod_api
  ke_fs :: cgroupfs
  ke_now :: rat
  ke_create_event :: "string \<Rightarrow> k8s_event \<Rightarrow> unit result"
  ke_str :: "py_error \<Rightarrow> string"

definition queue_maxsize :: nat where
  "queue_maxsize = 1000"

definition new_killer :: "bool \<Rightarrow> yval \<Rightarrow> yval \<Rightarrow> repeat_tracker option \<Rightarrow> killer result" where
  "new_killer dry_run exclude warn_only repeat =
     and_then (namespace_set exclude) (\<lambda>ex.
     and_then (namespace_set warn_only) (\<lambda>wo.
       Inr \<lparr>ki_dry_run = dry_run, ki_exclude = ex, ki_warn_only = wo, ki_repeat = repeat,
            ki_queue = [], ki_in_flight = []\<rparr>))"

section \<open>Operations\<close>

definition resolve_pod :: "kenv \<Rightarrow> int \<Rightarrow> shared \<Rightarrow> (string \<times> string) option result \<times> shared" where
  "resolve_pod env cgroup_id sh =
     (let (res, r) = resolve (Some (ke_core_v1 env)) (ke_fs env) cgroup_id (sh_resolver sh)
      in (res, sh\<lparr>sh_resolver := r\<rparr>))"

definition freeze_and_kill_cgroup :: "kenv \<Rightarrow> int \<Rightarrow> shared \<Rightarrow> bool \<times> shared" where
  "freeze_and_kill_cgroup env cgroup_id sh =
     (let (path, r) = find_cgroup_path (ke_fs env) cgroup_id (sh_resolver sh);
          sh = sh\<lparr>sh_resolver := r\<rparr>
      in case path of
           None \<Rightarrow> (False, sh)
         | Some path \<Rightarrow>
             (let kill_file = path_join path ''cgroup.kill''
              in case fs_kill (ke_fs env) kill_file of
                   KillMissing \<Rightarrow>
                     (False, log_msg Warning
                        (kill_file @ '' unavailable (needs cgroup v2, '' @ ''kernel 5.14+) '' @ em_dash @
                         '' only the asynchronous '' @ ''API-delete remains'') sh)
                 | KillWritable \<Rightarrow>
                     (True, on_metrics (metrics_inc Cgroup_kills 1)
                        (log_msg Info (''cgroup.kill: all processes in cgroup='' @ show_int cgroup_id @ '' killed'')
                           (add_effect (KillCgroup path) sh)))
                 | KillDenied e \<Rightarrow>
                     (False, log_msg Error (''failed to write to '' @ kill_file @ '': '' @ e) sh)))"

definition emit_event :: "kenv \<Rightarrow> string \<Rightarrow> string \<Rightarrow> string \<Rightarrow> shared \<Rightarrow> unit result \<times> shared" where
  "emit_event env namespace name reason sh =
     (let event = \<lparr>kv_generate_name = ''kubewarden-'' @ name @ ''-'', kv_kind = ''Pod'',
                   kv_name = name, kv_namespace = namespace,
                   kv_reason = ''KubeWardenThreatDetected'', kv_message = take_chars 1024 reason,
                   kv_type = ''Warning'', kv_component = ''kubewarden'', kv_count = 1\<rparr>
      in case ke_create_event env namespace event of
           Inl e \<Rightarrow> (Inl e, sh)
         | Inr _ \<Rightarrow> (Inr (), on_metrics (metrics_inc Events_emitted 1)
                              (add_effect (CreateEvent namespace event) sh)))"

text \<open>The repetition bookkeeping of the warn-only branch: the note and whether it escalates.\<close>

definition record_repeat ::
    "kenv \<Rightarrow> int \<Rightarrow> string \<Rightarrow> string \<Rightarrow> killer \<Rightarrow> shared \<Rightarrow> (string \<times> bool) result \<times> killer \<times> shared" where
  "record_repeat env cgroup_id namespace name k sh =
     (case ki_repeat k of
        None \<Rightarrow> (Inr ([], False), k, sh)
      | Some rt \<Rightarrow>
          (case owner_of (Some (ke_core_v1 env)) (ke_fs env) cgroup_id (sh_resolver sh) of
             (Inl e, r) \<Rightarrow> (Inl e, k, sh\<lparr>sh_resolver := r\<rparr>)
           | (Inr found, r) \<Rightarrow>
               (let owner = (case found of
                      None \<Rightarrow> namespace @ ''/'' @ name
                    | Some ow \<Rightarrow> (if ow = [] then namespace @ ''/'' @ name else ow));
                    (rt, count, escalated, stamps) = record_detection (ke_now env) owner rt;
                    sh = sh\<lparr>sh_resolver := r\<rparr>;
                    sh = (if escalated then on_metrics (metrics_on_escalation namespace) sh else sh);
                    note = (if 1 < count then describe_repeat owner stamps else [])
                in (Inr (note, escalated), k\<lparr>ki_repeat := Some rt\<rparr>, sh))))"

definition repeat_kills :: "killer \<Rightarrow> bool" where
  "repeat_kills k = (case ki_repeat k of None \<Rightarrow> False | Some rt \<Rightarrow> rt_action rt = YStr ''kill'')"

text \<open>The texts of the messages.\<close>

definition msg_escalated :: "string \<Rightarrow> string \<Rightarrow> string \<Rightarrow> string" where
  "msg_escalated who repeat_note reason =
     who @ '': WARN-ONLY namespace, '' @ ''but REPEAT ESCALATION fired '' @ em_dash @ '' killing. '' @
     repeat_note @ ''. Reason: '' @ reason"

definition msg_warn_only :: "string \<Rightarrow> string \<Rightarrow> string \<Rightarrow> string" where
  "msg_warn_only who repeat_note reason =
     (let suffix = (if repeat_note \<noteq> [] then '' ['' @ repeat_note @ '']'' else [])
      in who @ '': WARN-ONLY namespace '' @ em_dash @ '' '' @
         ''pod NOT killed, creating an Event for human triage.'' @ suffix @ '' Reason: '' @ reason)"

definition warn_only_reason :: "string \<Rightarrow> string \<Rightarrow> string" where
  "warn_only_reason repeat_note reason =
     (let tag = ''WARN-ONLY, pod not killed'' @ (if repeat_note \<noteq> [] then ''; '' @ repeat_note else [])
      in ''['' @ tag @ ''] '' @ reason)"

definition msg_event_failed :: "string \<Rightarrow> string \<Rightarrow> string" where
  "msg_event_failed who e = ''Event for '' @ who @ '' not created: '' @ e"

definition msg_queue_full :: "string \<Rightarrow> bool \<Rightarrow> string" where
  "msg_queue_full who killed_locally =
     ''API task queue full, '' @ who @ '' '' @ ''will not be deleted through the API '' @
     ''(processes '' @ (if killed_locally then ''already killed'' else ''NOT killed'') @ '')''"

definition msg_killed :: "string \<Rightarrow> bool \<Rightarrow> string \<Rightarrow> string" where
  "msg_killed who killed_locally reason =
     (let how = (if killed_locally then ''cgroup.kill (instant)'' else ''WITHOUT local kill'')
      in ''KILLED '' @ who @ '' ['' @ how @ '', API-delete queued] '' @ em_dash @ '' '' @ reason)"

text \<open>The warn-only branch: \<open>True\<close> when it falls through to the kill path.\<close>

definition warn_only_branch ::
    "kenv \<Rightarrow> int \<Rightarrow> string \<Rightarrow> string \<Rightarrow> string \<Rightarrow> killer \<Rightarrow> shared \<Rightarrow> bool result \<times> killer \<times> shared" where
  "warn_only_branch env cgroup_id namespace name reason k sh =
     (case record_repeat env cgroup_id namespace name k sh of
        (Inl e, k, sh) \<Rightarrow> (Inl e, k, sh)
      | (Inr (repeat_note, escalated), k, sh) \<Rightarrow>
          (let who = namespace @ ''/'' @ name in
           if escalated \<and> repeat_kills k then
             (Inr True, k, log_msg Critical (msg_escalated who repeat_note reason) sh)
           else
             (let sh = log_msg (if escalated then Critical else Warning)
                         (msg_warn_only who repeat_note reason) sh
              in if ki_dry_run k then (Inr False, k, sh)
                 else
                   (case emit_event env namespace name (warn_only_reason repeat_note reason) sh of
                      (Inl e, sh) \<Rightarrow> (Inr False, k, log_msg Error (msg_event_failed who (ke_str env e)) sh)
                    | (Inr _, sh) \<Rightarrow> (Inr False, k, sh)))))"

definition queue_delete :: "string \<Rightarrow> string \<Rightarrow> string \<Rightarrow> bool \<Rightarrow> killer \<Rightarrow> shared \<Rightarrow> killer \<times> shared" where
  "queue_delete namespace name reason killed_locally k sh =
     (let key = (namespace, name)
      in if key \<in> set (ki_in_flight k) then (k, sh)
         else
           (let k = k\<lparr>ki_in_flight := List.insert key (ki_in_flight k)\<rparr>
            in if length (ki_queue k) < queue_maxsize then
                 (k\<lparr>ki_queue := ki_queue k @ [(namespace, name, reason)]\<rparr>, sh)
               else
                 (k\<lparr>ki_in_flight := removeAll key (ki_in_flight k)\<rparr>,
                  log_msg Error (msg_queue_full (namespace @ ''/'' @ name) killed_locally) sh)))"

definition kill_resolved ::
    "kenv \<Rightarrow> int \<Rightarrow> string \<Rightarrow> string \<Rightarrow> string \<Rightarrow> killer \<Rightarrow> shared \<Rightarrow> bool result \<times> killer \<times> shared" where
  "kill_resolved env cgroup_id namespace name reason k sh =
     (if ki_dry_run k then
        (Inr False, k,
         log_msg Critical (''[DRY-RUN] would kill '' @ namespace @ ''/'' @ name @ '' '' @ em_dash @
           '' '' @ reason) sh)
      else
        (let (killed_locally, sh) = freeze_and_kill_cgroup env cgroup_id sh;
             (k, sh) = queue_delete namespace name reason killed_locally k sh
         in (Inr True, k, log_msg Critical (msg_killed (namespace @ ''/'' @ name) killed_locally reason) sh)))"

definition handle_kill :: "kenv \<Rightarrow> int \<Rightarrow> string \<Rightarrow> killer \<Rightarrow> shared \<Rightarrow> bool result \<times> killer \<times> shared" where
  "handle_kill env cgroup_id reason k sh =
     (case resolve_pod env cgroup_id sh of
        (Inl e, sh) \<Rightarrow> (Inl e, k, sh)
      | (Inr None, sh) \<Rightarrow>
          (Inr False, k,
           on_metrics (metrics_inc Resolve_failures 1)
             (log_msg Warning (''cgroup='' @ show_int cgroup_id @ '': could not match to a pod '' @
                ''(process may not be in a container) '' @ em_dash @ '' kill skipped'') sh))
      | (Inr (Some (namespace, name)), sh) \<Rightarrow>
          (if namespace \<in> set (ki_exclude k) then
             (Inr False, k,
              log_msg Warning (namespace @ ''/'' @ name @ '': namespace is excluded '' @ em_dash @
                '' kill skipped (reason was: '' @ reason @ '')'') sh)
           else if namespace \<in> set (ki_warn_only k) then
             (case warn_only_branch env cgroup_id namespace name reason k sh of
                (Inl e, k, sh) \<Rightarrow> (Inl e, k, sh)
              | (Inr falls_through, k, sh) \<Rightarrow>
                  (if falls_through then kill_resolved env cgroup_id namespace name reason k sh
                   else (Inr False, k, sh)))
           else kill_resolved env cgroup_id namespace name reason k sh))"

section \<open>What each operation touches\<close>

fun kills :: "effect list \<Rightarrow> string list" where
  "kills [] = []"
| "kills (KillCgroup path # es) = path # kills es"
| "kills (_ # es) = kills es"

fun created_events :: "effect list \<Rightarrow> k8s_event list" where
  "created_events [] = []"
| "created_events (CreateEvent ns e # es) = e # created_events es"
| "created_events (_ # es) = created_events es"

lemma kills_append [simp]: "kills (a @ b) = kills a @ kills b"
  by (induction a rule: kills.induct) simp_all

lemma created_events_append [simp]: "created_events (a @ b) = created_events a @ created_events b"
  by (induction a rule: created_events.induct) simp_all

lemma effect_frame [simp]:
  "sh_effects (on_metrics f sh) = sh_effects sh"
  "sh_resolver (on_metrics f sh) = sh_resolver sh"
  "sh_resolver (log_msg l s sh) = sh_resolver sh"
  "sh_metrics (log_msg l s sh) = sh_metrics sh"
  "sh_resolver (add_effect f' sh) = sh_resolver sh"
  "sh_metrics (add_effect f' sh) = sh_metrics sh"
  "kills (sh_effects (log_msg l s sh)) = kills (sh_effects sh)"
  "created_events (sh_effects (log_msg l s sh)) = created_events (sh_effects sh)"
  "sh_effects (add_effect f' sh) = sh_effects sh @ [f']"
  "sh_metrics (on_metrics f sh) = map_option f (sh_metrics sh)"
  by (simp_all add: on_metrics_def log_msg_def add_effect_def)

lemma resolve_pod_frame:
  assumes "resolve_pod env c sh = (v, sh')"
  shows "sh_effects sh' = sh_effects sh" "sh_metrics sh' = sh_metrics sh"
    "resolve (Some (ke_core_v1 env)) (ke_fs env) c (sh_resolver sh) = (v, sh_resolver sh')"
  using assms by (auto simp: resolve_pod_def split: prod.splits)

lemma emit_event_frame:
  assumes "emit_event env ns name reason sh = (v, sh')"
  shows "kills (sh_effects sh') = kills (sh_effects sh)" "sh_resolver sh' = sh_resolver sh"
    "\<exists>new. created_events (sh_effects sh') = created_events (sh_effects sh) @ new \<and>
       (\<forall>e \<in> set new. kv_message e = take_chars 1024 reason \<and> kv_name e = name \<and> kv_namespace e = ns)"
  using assms by (auto simp: emit_event_def Let_def split: sum.splits)

lemma record_repeat_frame:
  assumes "record_repeat env c ns name k sh = (v, k', sh')"
  shows "sh_effects sh' = sh_effects sh"
    "ki_queue k' = ki_queue k" "ki_in_flight k' = ki_in_flight k" "ki_dry_run k' = ki_dry_run k"
    "ki_exclude k' = ki_exclude k" "ki_warn_only k' = ki_warn_only k"
    "repeat_kills k' = repeat_kills k"
  using assms
  by (auto simp: record_repeat_def record_detection_def repeat_kills_def Let_def
      split: option.splits prod.splits sum.splits if_splits)

text \<open>
  What the repetition rule promises about one pod. A detection counts for the owner the resolver's
  cache holds for the pod's UID, or for the pod itself when it holds none; it escalates when the
  owner's detections inside the window, this one included, reach the threshold.
\<close>

definition owner_counted :: "int \<Rightarrow> string \<Rightarrow> string \<Rightarrow> resolver \<Rightarrow> string" where
  "owner_counted c ns name r =
     (case Option.bind (Option.bind (map_of (path_cache r) c) extract_pod_uid) (map_of (owner_cache r)) of
        None \<Rightarrow> ns @ ''/'' @ name
      | Some ow \<Rightarrow> (if ow = [] then ns @ ''/'' @ name else ow))"

definition recent_detections :: "rat \<Rightarrow> string \<Rightarrow> killer \<Rightarrow> rat list" where
  "recent_detections now owner k =
     (case ki_repeat k of
        None \<Rightarrow> []
      | Some rt \<Rightarrow> dropWhile (\<lambda>t. t < now - of_int (rt_window rt)) (history rt owner @ [now]))"

definition over_threshold :: "rat \<Rightarrow> string \<Rightarrow> killer \<Rightarrow> bool" where
  "over_threshold now owner k =
     (case ki_repeat k of
        None \<Rightarrow> False
      | Some rt \<Rightarrow> rt_threshold rt \<le> int (length (recent_detections now owner k)))"

definition escalates :: "rat \<Rightarrow> string \<Rightarrow> killer \<Rightarrow> bool" where
  "escalates now owner k =
     (over_threshold now owner k \<and> map_option rt_action (ki_repeat k) = Some (YStr ''kill''))"

definition note_on :: "rat \<Rightarrow> string \<Rightarrow> killer \<Rightarrow> string" where
  "note_on now owner k =
     (if 1 < length (recent_detections now owner k)
      then describe_repeat owner (recent_detections now owner k) else [])"

text \<open>The resolver has just found the pod of a cgroup.\<close>

definition resolved :: "int \<Rightarrow> string \<Rightarrow> string \<Rightarrow> resolver \<Rightarrow> bool" where
  "resolved c ns name r =
     (\<exists>p uid. map_of (path_cache r) c = Some p \<and> extract_pod_uid p = Some uid \<and>
        map_of (pod_cache r) uid = Some (ns, name))"

lemma owner_of_resolved:
  assumes "resolved c ns name r"
  shows "owner_of core fs c r =
     (Inr (Option.bind (Option.bind (map_of (path_cache r) c) extract_pod_uid) (map_of (owner_cache r))), r)"
  using assms by (auto simp: resolved_def owner_of_def find_cgroup_path_cached lookup_pod_def split: option.split)

lemma record_detection_recent:
  "\<exists>rt'. record_detection now owner rt =
     (rt', int (length (dropWhile (\<lambda>t. t < now - of_int (rt_window rt)) (history rt owner @ [now]))),
      rt_threshold rt \<le> int (length (dropWhile (\<lambda>t. t < now - of_int (rt_window rt)) (history rt owner @ [now]))),
      dropWhile (\<lambda>t. t < now - of_int (rt_window rt)) (history rt owner @ [now]))"
  by (simp add: record_detection_def history_def Let_def detection_window.evict_dropWhile)

lemma record_repeat_resolved:
  assumes "resolved c ns name (sh_resolver sh)"
  shows "\<exists>k' sh'. record_repeat env c ns name k sh =
     (Inr (note_on (ke_now env) (owner_counted c ns name (sh_resolver sh)) k,
           over_threshold (ke_now env) (owner_counted c ns name (sh_resolver sh)) k), k', sh')"
proof (cases "ki_repeat k")
  case None
  then show ?thesis by (simp add: record_repeat_def note_on_def over_threshold_def recent_detections_def)
next
  case (Some rt)
  let ?o = "owner_counted c ns name (sh_resolver sh)"
  let ?recent = "dropWhile (\<lambda>t. t < ke_now env - of_int (rt_window rt)) (history rt ?o @ [ke_now env])"
  obtain rt' where r: "record_detection (ke_now env) ?o rt =
      (rt', int (length ?recent), rt_threshold rt \<le> int (length ?recent), ?recent)"
    using record_detection_recent by blast
  show ?thesis
    using r unfolding owner_counted_def
    by (simp add: record_repeat_def Some owner_of_resolved [OF assms] note_on_def over_threshold_def
        recent_detections_def Let_def)
qed

lemma warn_only_branch_frame:
  assumes "warn_only_branch env c ns name reason k sh = (v, k', sh')"
  shows "kills (sh_effects sh') = kills (sh_effects sh)"
    "ki_queue k' = ki_queue k" "ki_in_flight k' = ki_in_flight k" "ki_dry_run k' = ki_dry_run k"
proof -
  obtain w k1 sh1 where r: "record_repeat env c ns name k sh = (w, k1, sh1)"
    by (metis prod.exhaust)
  note f = record_repeat_frame [OF r]
  have "kills (sh_effects sh') = kills (sh_effects sh) \<and> k' = k1"
    using assms r f(1) emit_event_frame(1)
    by (auto simp: warn_only_branch_def Let_def split: sum.splits prod.splits if_splits)
  with f show "kills (sh_effects sh') = kills (sh_effects sh)"
    "ki_queue k' = ki_queue k" "ki_in_flight k' = ki_in_flight k" "ki_dry_run k' = ki_dry_run k"
    by simp_all
qed

lemma warn_only_branch_falls_through:
  assumes "warn_only_branch env c ns name reason k sh = (Inr True, k', sh')"
    and "resolved c ns name (sh_resolver sh)"
  shows "escalates (ke_now env) (owner_counted c ns name (sh_resolver sh)) k"
proof -
  let ?o = "owner_counted c ns name (sh_resolver sh)"
  obtain k1 sh1 where r: "record_repeat env c ns name k sh =
      (Inr (note_on (ke_now env) ?o k, over_threshold (ke_now env) ?o k), k1, sh1)"
    using record_repeat_resolved [OF assms(2)] by blast
  have "over_threshold (ke_now env) ?o k \<and> repeat_kills k1"
    using assms(1) r by (auto simp: warn_only_branch_def Let_def split: if_splits prod.splits sum.splits)
  then show ?thesis
    using record_repeat_frame(7) [OF r]
    by (auto simp: escalates_def repeat_kills_def split: option.splits)
qed

lemma resolve_pod_resolved:
  assumes "resolve_pod env c sh = (Inr (Some (ns, name)), sh')"
  shows "resolved c ns name (sh_resolver sh')"
  using resolve_found [OF resolve_pod_frame(3) [OF assms]] unfolding resolved_def by blast

lemma resolve_pod_path:
  assumes "resolve_pod env c sh = (Inr (Some (ns, name)), sh')"
  shows "\<exists>p uid. map_of (path_cache (sh_resolver sh')) c = Some p \<and> extract_pod_uid p = Some uid \<and>
     map_of (pod_cache (sh_resolver sh')) uid = Some (ns, name)"
  using resolve_pod_resolved [OF assms] unfolding resolved_def .

lemma freeze_effect:
  assumes "freeze_and_kill_cgroup env c sh = (b, sh')" "map_of (path_cache (sh_resolver sh)) c = Some p"
  shows "b \<longleftrightarrow> fs_kill (ke_fs env) (path_join p ''cgroup.kill'') = KillWritable"
    "kills (sh_effects sh') = kills (sh_effects sh) @ (if b then [p] else [])"
    "sh_resolver sh' = sh_resolver sh"
  using assms
  by (auto simp: freeze_and_kill_cgroup_def find_cgroup_path_cached Let_def split: kill_file.splits)

lemma queue_delete_effect:
  assumes "queue_delete ns name reason b k sh = (k', sh')"
  shows "kills (sh_effects sh') = kills (sh_effects sh)" "sh_resolver sh' = sh_resolver sh"
    "ki_queue k' = ki_queue k \<or> ki_queue k' = ki_queue k @ [(ns, name, reason)]"
    "(ns, name) \<in> set (ki_in_flight k') \<or> queue_maxsize \<le> length (ki_queue k')"
  using assms by (auto simp: queue_delete_def Let_def split: if_splits)

section \<open>What every use of the resolver keeps\<close>

text \<open>
  The killer touches the resolver through three of its operations. What they keep for the cgroup and
  in the environment of a call, the whole of \<open>handle_kill\<close> keeps.
\<close>

locale resolver_invariant =
  fixes inv :: "resolver \<Rightarrow> bool" and calls :: "kenv \<Rightarrow> int \<Rightarrow> bool"
  assumes find_keeps: "calls env c \<Longrightarrow> inv r \<Longrightarrow> inv (snd (find_cgroup_path (ke_fs env) c r))"
    and resolve_keeps: "calls env c \<Longrightarrow> inv r \<Longrightarrow> core \<in> {None, Some (ke_core_v1 env)} \<Longrightarrow>
      inv (snd (resolve core (ke_fs env) c r))"
    and owner_of_keeps: "calls env c \<Longrightarrow> inv r \<Longrightarrow> inv (snd (owner_of (Some (ke_core_v1 env)) (ke_fs env) c r))"
begin

lemma record_repeat_keeps:
  assumes "record_repeat env c ns name k sh = (v, k', sh')" "calls env c" "inv (sh_resolver sh)"
  shows "inv (sh_resolver sh')"
  using assms(1,3) owner_of_keeps [OF assms(2,3)]
  by (auto simp: record_repeat_def Let_def split: option.splits prod.splits sum.splits if_splits)

lemma warn_only_branch_keeps:
  assumes "warn_only_branch env c ns name reason k sh = (v, k', sh')" "calls env c" "inv (sh_resolver sh)"
  shows "inv (sh_resolver sh')"
proof -
  obtain w k1 sh1 where r: "record_repeat env c ns name k sh = (w, k1, sh1)"
    by (metis prod.exhaust)
  have "inv (sh_resolver sh1)" by (rule record_repeat_keeps [OF r assms(2,3)])
  then show ?thesis
    using assms(1) r emit_event_frame(2)
    by (auto simp: warn_only_branch_def Let_def split: sum.splits prod.splits if_splits)
qed

lemma freeze_keeps:
  assumes "freeze_and_kill_cgroup env c sh = (b, sh')" "calls env c" "inv (sh_resolver sh)"
  shows "inv (sh_resolver sh')"
  using assms(1) find_keeps [OF assms(2,3)]
  by (auto simp: freeze_and_kill_cgroup_def Let_def split: prod.splits option.splits kill_file.splits)

lemma kill_resolved_keeps:
  assumes "kill_resolved env c ns name reason k sh = (v, k', sh')" "calls env c" "inv (sh_resolver sh)"
  shows "inv (sh_resolver sh')"
proof (cases "ki_dry_run k")
  case True
  with assms show ?thesis by (auto simp: kill_resolved_def)
next
  case False
  obtain b sh1 where f: "freeze_and_kill_cgroup env c sh = (b, sh1)" by fastforce
  obtain k2 sh2 where q: "queue_delete ns name reason b k sh1 = (k2, sh2)" by fastforce
  from freeze_keeps [OF f assms(2,3)] queue_delete_effect(2) [OF q] assms(1) False f q
  show ?thesis by (auto simp: kill_resolved_def)
qed

lemma handle_kill_keeps:
  assumes "handle_kill env c reason k sh = (v, k', sh')" "calls env c" "inv (sh_resolver sh)"
  shows "inv (sh_resolver sh')"
proof -
  obtain w sh0 where r: "resolve_pod env c sh = (w, sh0)" by fastforce
  have p0: "inv (sh_resolver sh0)"
    using resolve_pod_frame(3) [OF r] resolve_keeps [OF assms(2,3), of "Some (ke_core_v1 env)"] by simp
  consider "w = Inr None" | e where "w = Inl e" | ns name where "w = Inr (Some (ns, name))"
    by (metis option.exhaust prod.exhaust sum.exhaust)
  then show ?thesis
  proof cases
    case (3 ns name)
    obtain x k1 sh1 where b: "warn_only_branch env c ns name reason k sh0 = (x, k1, sh1)"
      by (metis prod.exhaust)
    note p1 = warn_only_branch_keeps [OF b assms(2) p0]
    have "inv (sh_resolver sh2)"
      if "kill_resolved env c ns name reason k sh0 = (y, k2, sh2) \<or>
          kill_resolved env c ns name reason k1 sh1 = (y, k2, sh2)" for y k2 sh2
      using that kill_resolved_keeps [OF _ assms(2)] p0 p1 by metis
    with assms(1) r 3 b p0 p1 show ?thesis
      by (cases x) (auto simp: handle_kill_def split: if_splits)
  qed (use assms(1) r p0 in \<open>auto simp: handle_kill_def\<close>)
qed

end

text \<open>A cached path stays what it is.\<close>

interpretation path_kept: resolver_invariant "\<lambda>r. map_of (path_cache r) c = Some p" "\<lambda>env c'. True" for c p
proof
  fix env c' core and r :: resolver
  assume p: "map_of (path_cache r) c = Some p"
  note f = find_cgroup_path_keeps [OF p]
  show "map_of (path_cache (snd (find_cgroup_path (ke_fs env) c' r))) c = Some p" by (rule f)
  show "map_of (path_cache (snd (resolve core (ke_fs env) c' r))) c = Some p"
    using f [of "ke_fs env" c'] by (auto simp: resolve_def frame split_beta split: option.split)
  show "map_of (path_cache (snd (owner_of (Some (ke_core_v1 env)) (ke_fs env) c' r))) c = Some p"
    using f [of "ke_fs env" c'] by (auto simp: owner_of_def frame split_beta split: option.split sum.split)
qed

text \<open>Either nothing destructive happens, or the kill path runs on a pod that may be killed.\<close>

lemma handle_kill_cases:
  assumes "handle_kill env c reason k sh = (v, k', sh')"
  obtains (spared) "kills (sh_effects sh') = kills (sh_effects sh)" "ki_queue k' = ki_queue k"
      "ki_in_flight k' = ki_in_flight k" "v \<noteq> Inr True"
  | (killed) ns name p uid sh0 k1 sh1 where
      "resolve_pod env c sh = (Inr (Some (ns, name)), sh0)"
      "map_of (path_cache (sh_resolver sh0)) c = Some p" "extract_pod_uid p = Some uid"
      "map_of (pod_cache (sh_resolver sh0)) uid = Some (ns, name)"
      "ns \<notin> set (ki_exclude k)" "ns \<in> set (ki_warn_only k) \<longrightarrow>
        escalates (ke_now env) (owner_counted c ns name (sh_resolver sh0)) k"
      "kill_resolved env c ns name reason k1 sh1 = (v, k', sh')"
      "map_of (path_cache (sh_resolver sh1)) c = Some p"
      "kills (sh_effects sh1) = kills (sh_effects sh)" "ki_queue k1 = ki_queue k"
      "ki_in_flight k1 = ki_in_flight k" "ki_dry_run k1 = ki_dry_run k"
proof -
  obtain w sh0 where r: "resolve_pod env c sh = (w, sh0)" by fastforce
  note f = resolve_pod_frame [OF r]
  show ?thesis
  proof (cases "\<exists>ns name. w = Inr (Some (ns, name))")
    case False
    then consider e where "w = Inl e" | "w = Inr None"
      by (cases w) (auto, metis option.exhaust prod.exhaust)
    then have "kills (sh_effects sh') = kills (sh_effects sh) \<and> k' = k \<and> v \<noteq> Inr True"
      using assms r f by cases (auto simp: handle_kill_def)
    then show ?thesis by (intro spared) simp_all
  next
    case True
    then obtain ns name where w: "w = Inr (Some (ns, name))" by blast
    obtain p uid where p: "map_of (path_cache (sh_resolver sh0)) c = Some p" "extract_pod_uid p = Some uid"
      "map_of (pod_cache (sh_resolver sh0)) uid = Some (ns, name)"
      using resolve_pod_path r w by blast
    show ?thesis
    proof (cases "ns \<in> set (ki_exclude k)")
      case True
      with assms r w f have "kills (sh_effects sh') = kills (sh_effects sh) \<and> k' = k \<and> v \<noteq> Inr True"
        by (auto simp: handle_kill_def)
      then show ?thesis by (intro spared) simp_all
    next
      case exclude: False
      show ?thesis
      proof (cases "ns \<in> set (ki_warn_only k)")
        case False
        with assms r w exclude have "kill_resolved env c ns name reason k sh0 = (v, k', sh')"
          by (simp add: handle_kill_def)
        from killed [OF _ p exclude _ this p(1)] False r w f show ?thesis by simp
      next
        case True
        obtain x k1 sh1 where b: "warn_only_branch env c ns name reason k sh0 = (x, k1, sh1)"
          by (metis prod.exhaust)
        note bf = warn_only_branch_frame [OF b]
        show ?thesis
        proof (cases "x = Inr True")
          case False
          then consider e where "x = Inl e" | "x = Inr False" by (cases x) auto
          then have "sh' = sh1 \<and> k' = k1 \<and> v \<noteq> Inr True"
            using assms r w exclude True b by cases (auto simp: handle_kill_def)
          with bf f show ?thesis by (intro spared) simp_all
        next
          case x: True
          with assms r w exclude True b have "kill_resolved env c ns name reason k1 sh1 = (v, k', sh')"
            by (simp add: handle_kill_def)
          moreover have "escalates (ke_now env) (owner_counted c ns name (sh_resolver sh0)) k"
            using warn_only_branch_falls_through [OF b [unfolded x]] resolve_pod_resolved r w by blast
          ultimately show ?thesis
            using killed [OF _ p exclude _ _ path_kept.warn_only_branch_keeps [OF b TrueI p(1)]] r w f bf by simp
        qed
      qed
    qed
  qed
qed

lemma kill_resolved_dry: "ki_dry_run k \<Longrightarrow> kill_resolved env c ns name reason k sh = (v, k', sh') \<Longrightarrow>
    kills (sh_effects sh') = kills (sh_effects sh) \<and> k' = k \<and> v = Inr False"
  by (auto simp: kill_resolved_def)

lemma kill_resolved_effect:
  assumes "kill_resolved env c ns name reason k sh = (v, k', sh')" "\<not> ki_dry_run k"
    and "map_of (path_cache (sh_resolver sh)) c = Some p"
  shows "v = Inr True"
    "kills (sh_effects sh') = kills (sh_effects sh) @
       (if fs_kill (ke_fs env) (path_join p ''cgroup.kill'') = KillWritable then [p] else [])"
    "sh_resolver sh' = sh_resolver sh"
    "ki_queue k' = ki_queue k \<or> ki_queue k' = ki_queue k @ [(ns, name, reason)]"
    "(ns, name) \<in> set (ki_in_flight k') \<or> queue_maxsize \<le> length (ki_queue k')"
proof -
  obtain b sh1 where f: "freeze_and_kill_cgroup env c sh = (b, sh1)" by fastforce
  obtain k2 sh2 where q: "queue_delete ns name reason b k sh1 = (k2, sh2)" by fastforce
  have r: "v = Inr True" "k' = k2" "kills (sh_effects sh') = kills (sh_effects sh2)"
    "sh_resolver sh' = sh_resolver sh2"
    using assms(1,2) f q by (auto simp: kill_resolved_def)
  show "v = Inr True" by (rule r)
  show "kills (sh_effects sh') = kills (sh_effects sh) @
       (if fs_kill (ke_fs env) (path_join p ''cgroup.kill'') = KillWritable then [p] else [])"
    using r freeze_effect(1,2) [OF f assms(3)] queue_delete_effect(1) [OF q] by simp
  show "sh_resolver sh' = sh_resolver sh"
    using r freeze_effect(3) [OF f assms(3)] queue_delete_effect(2) [OF q] by simp
  show "ki_queue k' = ki_queue k \<or> ki_queue k' = ki_queue k @ [(ns, name, reason)]"
    using r queue_delete_effect(3) [OF q] by simp
  show "(ns, name) \<in> set (ki_in_flight k') \<or> queue_maxsize \<le> length (ki_queue k')"
    using r queue_delete_effect(4) [OF q] by simp
qed

text \<open>What the warn-only branch leaves behind: an Event for humans.\<close>

lemma warn_only_branch_event:
  assumes "resolved c ns name (sh_resolver sh)" "\<not> ki_dry_run k"
    and "\<not> escalates (ke_now env) (owner_counted c ns name (sh_resolver sh)) k"
    and "\<forall>n e. ke_create_event env n e = Inr ()"
    and "warn_only_branch env c ns name reason k sh = (v, k', sh')"
  shows "v = Inr False \<and>
     (\<exists>e. created_events (sh_effects sh') = created_events (sh_effects sh) @ [e] \<and>
        kv_name e = name \<and> kv_namespace e = ns \<and>
        kv_message e = take_chars 1024
          (warn_only_reason (note_on (ke_now env) (owner_counted c ns name (sh_resolver sh)) k) reason))"
proof -
  let ?o = "owner_counted c ns name (sh_resolver sh)"
  let ?msg = "note_on (ke_now env) ?o k" and ?esc = "over_threshold (ke_now env) ?o k"
  obtain k1 sh1 where r: "record_repeat env c ns name k sh = (Inr (?msg, ?esc), k1, sh1)"
    using record_repeat_resolved [OF assms(1)] by blast
  note f = record_repeat_frame(1,4,7) [OF r]
  have quiet: "\<not> (?esc \<and> repeat_kills k1)"
    using assms(3) f(3) by (auto simp: escalates_def repeat_kills_def split: option.splits)
  let ?sh2 = "log_msg (if ?esc then Critical else Warning) (msg_warn_only (ns @ ''/'' @ name) ?msg reason) sh1"
  obtain y sh3 where e: "emit_event env ns name (warn_only_reason ?msg reason) ?sh2 = (y, sh3)" by fastforce
  have "y = Inr () \<and> created_events (sh_effects sh3) = created_events (sh_effects sh) @
      [\<lparr>kv_generate_name = ''kubewarden-'' @ name @ ''-'', kv_kind = ''Pod'', kv_name = name, kv_namespace = ns,
        kv_reason = ''KubeWardenThreatDetected'', kv_message = take_chars 1024 (warn_only_reason ?msg reason),
        kv_type = ''Warning'', kv_component = ''kubewarden'', kv_count = 1\<rparr>]"
    using e assms(4) f(1) by (auto simp: emit_event_def)
  moreover have "v = Inr False \<and> sh' = sh3"
    using assms(2,5) r quiet e f(2) calculation by (auto simp: warn_only_branch_def Let_def)
  ultimately show ?thesis by auto
qed

text \<open>An unprotected pod outside dry-run mode is killed.\<close>

lemma handle_kill_succeeds:
  assumes "fst (resolve_pod env c sh) = Inr (Some (ns, name))" and "\<not> ki_dry_run k"
    and "ns \<notin> set (ki_exclude k)" and "ns \<notin> set (ki_warn_only k)"
    and "handle_kill env c reason k sh = (v, k', sh')"
  obtains p where "v = Inr True" "map_of (path_cache (sh_resolver sh')) c = Some p"
    "sh_resolver sh' = sh_resolver (snd (resolve_pod env c sh))"
    "fs_kill (ke_fs env) (path_join p ''cgroup.kill'') = KillWritable \<Longrightarrow>
       kills (sh_effects sh') = kills (sh_effects sh) @ [p]"
    "(ns, name) \<in> set (ki_in_flight k') \<or> queue_maxsize \<le> length (ki_queue k')"
proof -
  obtain sh0 where r: "resolve_pod env c sh = (Inr (Some (ns, name)), sh0)"
    using assms(1) by (metis prod.collapse)
  obtain p where p: "map_of (path_cache (sh_resolver sh0)) c = Some p"
    using resolve_pod_path [OF r] by blast
  have "kill_resolved env c ns name reason k sh0 = (v, k', sh')"
    using assms(3-5) r by (simp add: handle_kill_def)
  from kill_resolved_effect [OF this assms(2) p] p resolve_pod_frame(1) [OF r] r show thesis
    by (intro that [of p]) auto
qed

text \<open>
  An unreachable API server disarms the killer: nothing is done, although \<open>cgroup.kill\<close> would need
  no API call.
\<close>

lemma handle_kill_api_failure:
  assumes "fst (resolve_pod env c sh) = Inl e"
  shows "\<exists>sh'. handle_kill env c reason k sh = (Inl e, k, sh') \<and> sh_effects sh' = sh_effects sh"
  using assms resolve_pod_frame(1) [of env c sh]
  by (cases "resolve_pod env c sh") (auto simp: handle_kill_def)

section \<open>A small cluster\<close>

definition demo_kenv :: "string \<Rightarrow> kenv" where
  "demo_kenv ns = \<lparr>ke_core_v1 = demo_api ns, ke_fs = demo_fs, ke_now = 0,
     ke_create_event = (\<lambda>n e. Inr ()), ke_str = (\<lambda>e. [])\<rparr>"

definition demo_killer :: killer where
  "demo_killer = \<lparr>ki_dry_run = False, ki_exclude = [''kubewarden-system''], ki_warn_only = [''kube-system''],
     ki_repeat = Some (new_tracker 600 3 (YStr ''alert'')), ki_queue = [], ki_in_flight = []\<rparr>"

definition demo_shared :: shared where
  "demo_shared = \<lparr>sh_resolver = new_resolver, sh_metrics = None, sh_effects = []\<rparr>"

lemma demo_resolve_pod:
  "fst (resolve_pod (demo_kenv ns) 108000 demo_shared) = Inr (Some (ns, ''attacker''))"
  by (simp add: resolve_pod_def demo_kenv_def demo_shared_def demo_resolve)

lemma demo_path_kill:
  "fs_kill (ke_fs (demo_kenv ns)) p = KillWritable"
  by (simp add: demo_kenv_def demo_fs_def)

section \<open>Properties\<close>

text \<open>C2. The guards hold: if handling a KILL verdict writes a \<open>cgroup.kill\<close> file, queues a
  deletion or reports success, then the killer is not in dry-run mode, the cgroup was resolved to a
  pod, its namespace is not excluded, and in a warn-only namespace the escalation is configured to
  kill and the detections counted for this pod's own owner inside the window, this one included,
  reach the threshold.\<close>
theorem kill_only_when_allowed:
  assumes "handle_kill env c reason k sh = (v, k', sh')"
    and "kills (sh_effects sh') \<noteq> kills (sh_effects sh) \<or> ki_queue k' \<noteq> ki_queue k \<or> v = Inr True"
  shows "\<not> ki_dry_run k \<and>
     (\<exists>ns name sh0. resolve_pod env c sh = (Inr (Some (ns, name)), sh0) \<and> ns \<notin> set (ki_exclude k) \<and>
        (ns \<in> set (ki_warn_only k) \<longrightarrow>
           escalates (ke_now env) (owner_counted c ns name (sh_resolver sh0)) k))"
  using assms(1)
proof (cases rule: handle_kill_cases)
  case spared
  with assms(2) show ?thesis by simp
next
  case (killed ns name p uid sh0 k1 sh1)
  have "\<not> ki_dry_run k"
  proof
    assume "ki_dry_run k"
    with killed have "kills (sh_effects sh') = kills (sh_effects sh1) \<and> k' = k1 \<and> v = Inr False"
      by (intro kill_resolved_dry) simp_all
    with killed assms(2) show False by simp
  qed
  with killed show ?thesis by auto
qed

text \<open>Witness of C2: a verdict that is carried out, by a killer that is not in dry-run mode.\<close>
theorem kill_only_when_allowed_witness:
  "\<exists>v k' sh'. handle_kill (demo_kenv ''prod'') 108000 ''setns'' demo_killer demo_shared = (v, k', sh') \<and>
     v = Inr True \<and> \<not> ki_dry_run demo_killer"
proof -
  obtain v k' sh' where h: "handle_kill (demo_kenv ''prod'') 108000 ''setns'' demo_killer demo_shared = (v, k', sh')"
    by (metis prod.exhaust)
  then have "v = Inr True"
    by (auto simp: handle_kill_def resolve_pod_def demo_kenv_def demo_shared_def demo_resolve
        demo_killer_def kill_resolved_def split: prod.splits)
  with kill_only_when_allowed [OF h] h show ?thesis by blast
qed

text \<open>C17. The right pod dies: at most one \<open>cgroup.kill\<close> file is written, in the directory whose
  inode the verdict is about; at most one deletion is queued, of the pod whose UID that directory's
  path carries.\<close>
theorem kill_hits_own_pod:
  assumes "handle_kill env c reason k sh = (v, k', sh')"
    and "kills (sh_effects sh') \<noteq> kills (sh_effects sh) \<or> ki_queue k' \<noteq> ki_queue k"
  shows "\<exists>p uid ns name. map_of (path_cache (sh_resolver sh')) c = Some p \<and>
     extract_pod_uid p = Some uid \<and>
     map_of (pod_cache (snd (resolve (Some (ke_core_v1 env)) (ke_fs env) c (sh_resolver sh)))) uid = Some (ns, name) \<and>
     kills (sh_effects sh') \<in> {kills (sh_effects sh), kills (sh_effects sh) @ [p]} \<and>
     ki_queue k' \<in> {ki_queue k, ki_queue k @ [(ns, name, reason)]}"
  using assms(1)
proof (cases rule: handle_kill_cases)
  case spared
  with assms(2) show ?thesis by simp
next
  case (killed ns name p uid sh0 k1 sh1)
  have nd: "\<not> ki_dry_run k1"
  proof
    assume "ki_dry_run k1"
    with killed have "kills (sh_effects sh') = kills (sh_effects sh1) \<and> k' = k1 \<and> v = Inr False"
      by (intro kill_resolved_dry) simp_all
    with killed assms(2) show False by simp
  qed
  note e = kill_resolved_effect [OF killed(7) nd killed(8)]
  have r: "snd (resolve (Some (ke_core_v1 env)) (ke_fs env) c (sh_resolver sh)) = sh_resolver sh0"
    using resolve_pod_frame(3) [OF killed(1)] by simp
  have path: "map_of (path_cache (sh_resolver sh')) c = Some p" using e(3) killed(8) by simp
  have pod: "map_of (pod_cache (snd (resolve (Some (ke_core_v1 env)) (ke_fs env) c (sh_resolver sh)))) uid
      = Some (ns, name)" unfolding r by (rule killed(4))
  have files: "kills (sh_effects sh') \<in> {kills (sh_effects sh), kills (sh_effects sh) @ [p]}"
    using e(2) killed(9) by simp
  have queue: "ki_queue k' \<in> {ki_queue k, ki_queue k @ [(ns, name, reason)]}"
    using e(4) killed(10) by simp
  show ?thesis
    using path killed(3) pod files queue by blast
qed

text \<open>Witness of C17: the container of the demo node.\<close>
theorem kill_hits_own_pod_witness:
  "\<exists>v k' sh' p. handle_kill (demo_kenv ''prod'') 108000 ''setns'' demo_killer demo_shared = (v, k', sh') \<and>
     map_of (path_cache (sh_resolver sh')) 108000 = Some p \<and> kills (sh_effects sh') \<in> {[], [p]}"
proof -
  obtain v k' sh' where h: "handle_kill (demo_kenv ''prod'') 108000 ''setns'' demo_killer demo_shared = (v, k', sh')"
    by (metis prod.exhaust)
  then have "ki_queue k' \<noteq> ki_queue demo_killer"
    by (auto simp: handle_kill_def resolve_pod_def demo_kenv_def demo_shared_def demo_resolve
        demo_killer_def kill_resolved_def queue_delete_def queue_maxsize_def Let_def split: prod.splits if_splits)
  with kill_hits_own_pod [OF h] h show ?thesis by (auto simp: demo_shared_def)
qed

text \<open>C29. The kill completes: outside dry-run mode, for a pod that resolves to a namespace neither
  excluded nor warn-only, handling the verdict succeeds, the container's \<open>cgroup.kill\<close> file is
  written whenever it can be, and the pod is in flight to the API workers unless their queue is
  full.\<close>
theorem kill_completes:
  assumes "fst (resolve_pod env c sh) = Inr (Some (ns, name))" and "\<not> ki_dry_run k"
    and "ns \<notin> set (ki_exclude k)" and "ns \<notin> set (ki_warn_only k)"
    and "handle_kill env c reason k sh = (v, k', sh')"
  shows "v = Inr True \<and>
     (\<exists>p. map_of (path_cache (sh_resolver sh')) c = Some p \<and>
        (fs_kill (ke_fs env) (path_join p ''cgroup.kill'') = KillWritable \<longrightarrow>
           kills (sh_effects sh') = kills (sh_effects sh) @ [p])) \<and>
     ((ns, name) \<in> set (ki_in_flight k') \<or> queue_maxsize \<le> length (ki_queue k'))"
  by (rule handle_kill_succeeds [OF assms]) blast

text \<open>Witness of C29: the pod of a production namespace.\<close>
theorem kill_completes_witness:
  "\<exists>k' sh'. handle_kill (demo_kenv ''prod'') 108000 ''setns'' demo_killer demo_shared = (Inr True, k', sh') \<and>
     length (kills (sh_effects sh')) = 1"
proof -
  obtain v k' sh' where h: "handle_kill (demo_kenv ''prod'') 108000 ''setns'' demo_killer demo_shared = (v, k', sh')"
    by (metis prod.exhaust)
  from kill_completes [OF demo_resolve_pod _ _ _ h] show ?thesis
    using h by (auto simp: demo_killer_def demo_path_kill demo_shared_def)
qed

text \<open>C30. A warn-only pod is reported, not killed: outside dry-run mode, when the API server takes the
  Event and the repeat escalation does not call for killing this pod's owner, handling the verdict
  touches no process and no queue, reports no kill and creates exactly one Event for the pod, whose
  message says so, tells the owner's earlier detections inside the window and carries the reason,
  cut to 1024 characters.\<close>
theorem warn_only_pod_reported:
  assumes "resolve_pod env c sh = (Inr (Some (ns, name)), sh0)" and "\<not> ki_dry_run k"
    and "ns \<notin> set (ki_exclude k)" and "ns \<in> set (ki_warn_only k)"
    and "\<not> escalates (ke_now env) (owner_counted c ns name (sh_resolver sh0)) k"
    and "\<forall>n e. ke_create_event env n e = Inr ()"
    and "handle_kill env c reason k sh = (v, k', sh')"
  shows "v = Inr False \<and> kills (sh_effects sh') = kills (sh_effects sh) \<and>
     ki_queue k' = ki_queue k \<and> ki_in_flight k' = ki_in_flight k \<and>
     (\<exists>e. created_events (sh_effects sh') = created_events (sh_effects sh) @ [e] \<and>
        kv_name e = name \<and> kv_namespace e = ns \<and> py_len (kv_message e) \<le> 1024 \<and>
        kv_message e = take_chars 1024
          (warn_only_reason (note_on (ke_now env) (owner_counted c ns name (sh_resolver sh0)) k) reason))"
proof -
  obtain w k1 sh1 where b: "warn_only_branch env c ns name reason k sh0 = (w, k1, sh1)"
    by (metis prod.exhaust)
  note e = warn_only_branch_event [OF resolve_pod_resolved [OF assms(1)] assms(2,5,6) b]
  have eq: "v = Inr False" "k' = k1" "sh' = sh1"
    using assms(1,3,4,7) e b by (auto simp: handle_kill_def)
  note f = warn_only_branch_frame [OF b] resolve_pod_frame(1) [OF assms(1)]
  from e show ?thesis using eq f by (auto simp: py_len_take_chars)
qed

text \<open>Witness of C30: a detection in a pod of \<open>kube-system\<close> while another owner of the node has long
  reached the threshold, with escalation set to kill.\<close>
theorem warn_only_pod_reported_witness:
  "\<exists>v k' sh'. handle_kill (demo_kenv ''kube-system'') 108000 ''setns''
       (demo_killer\<lparr>ki_repeat := Some ((new_tracker 600 3 (YStr ''kill''))\<lparr>rt_history := [(''prod/db-0'', [0, 0, 0])]\<rparr>)\<rparr>)
       demo_shared = (v, k', sh') \<and>
     v = Inr False \<and> kills (sh_effects sh') = [] \<and> length (created_events (sh_effects sh')) = 1"
proof -
  let ?k = "demo_killer\<lparr>ki_repeat := Some ((new_tracker 600 3 (YStr ''kill''))\<lparr>rt_history := [(''prod/db-0'', [0, 0, 0])]\<rparr>)\<rparr>"
  obtain v k' sh' where h: "handle_kill (demo_kenv ''kube-system'') 108000 ''setns'' ?k demo_shared = (v, k', sh')"
    by (metis prod.exhaust)
  let ?sh0 = "snd (resolve_pod (demo_kenv ''kube-system'') 108000 demo_shared)"
  have r: "resolve_pod (demo_kenv ''kube-system'') 108000 demo_shared = (Inr (Some (''kube-system'', ''attacker'')), ?sh0)"
    using demo_resolve_pod by (metis prod.collapse)
  have res: "sh_resolver ?sh0 = demo_resolved ''kube-system''"
    by (simp add: resolve_pod_def demo_kenv_def demo_shared_def demo_resolve)
  have "\<not> escalates (ke_now (demo_kenv ''kube-system''))
      (owner_counted 108000 ''kube-system'' ''attacker'' (sh_resolver ?sh0)) ?k"
    unfolding res
    by (simp add: escalates_def over_threshold_def recent_detections_def history_def dict_get_def owner_counted_def
        demo_resolved_def demo_uid new_tracker_def demo_kenv_def)
  from warn_only_pod_reported [OF r _ _ _ this _ h] h show ?thesis
    by (auto simp: demo_killer_def demo_kenv_def demo_shared_def)
qed

end
