(* ===== verification/ApiWorkers.thy ===== *)
theory ApiWorkers
  imports Killer
begin

text \<open>
  The concurrency of \<open>core/k8s_killer.py\<close>: the thread that handles verdicts hands deletions to the
  workers through a bounded queue, with a set of pods in flight to avoid duplicates. Each critical
  section, queue operation and API call is one atomic step; the threads interleave freely, so a
  run is any sequence of steps of \<open>api_step\<close>. How an API call ends is chosen by the step.
\<close>

section \<open>States and steps\<close>

text \<open>
  The verdict thread between its two critical sections: after claiming the pod, or after the queue
  turned out full. A worker: waiting, before the Event, before the deletion, before the
  \<open>finally\<close> block.
\<close>

datatype main_pc = MIdle | MClaimed task_item | MFull task_item

datatype worker_pc = WIdle | WGot task_item | WEmitted task_item | WDeleted task_item

datatype delete_outcome = Deleted | ApiStatus int | OtherFailure

datatype api_action = EventTried task_item bool | DeleteTried task_item delete_outcome

record api_state =
  as_queue :: "task_item list"
  as_in_flight :: "(string \<times> string) set"
  as_main :: main_pc
  as_workers :: "nat \<Rightarrow> worker_pc"
  as_trace :: "api_action list"
  as_api_deletes :: int
  as_api_errors :: int
  as_events_emitted :: int

definition key :: "task_item \<Rightarrow> string \<times> string" where
  "key it = (fst it, fst (snd it))"

definition api_init :: api_state where
  "api_init = \<lparr>as_queue = [], as_in_flight = {}, as_main = MIdle, as_workers = (\<lambda>i. WIdle),
     as_trace = [], as_api_deletes = 0, as_api_errors = 0, as_events_emitted = 0\<rparr>"

text \<open>What the worker does with the answer of the deletion: count it, or an error other than 404.\<close>

definition count_delete :: "delete_outcome \<Rightarrow> api_state \<Rightarrow> api_state" where
  "count_delete out s =
     (case out of
        Deleted \<Rightarrow> s\<lparr>as_api_deletes := as_api_deletes s + 1\<rparr>
      | ApiStatus status \<Rightarrow> (if status = 404 then s else s\<lparr>as_api_errors := as_api_errors s + 1\<rparr>)
      | OtherFailure \<Rightarrow> s)"

inductive main_step :: "api_state \<Rightarrow> api_state \<Rightarrow> bool" where
  claim: "as_main s = MIdle \<Longrightarrow> key it \<notin> as_in_flight s \<Longrightarrow>
     main_step s (s\<lparr>as_in_flight := insert (key it) (as_in_flight s), as_main := MClaimed it\<rparr>)"
| put: "as_main s = MClaimed it \<Longrightarrow> length (as_queue s) < queue_maxsize \<Longrightarrow>
     main_step s (s\<lparr>as_queue := as_queue s @ [it], as_main := MIdle\<rparr>)"
| full: "as_main s = MClaimed it \<Longrightarrow> \<not> length (as_queue s) < queue_maxsize \<Longrightarrow>
     main_step s (s\<lparr>as_main := MFull it\<rparr>)"
| discard: "as_main s = MFull it \<Longrightarrow>
     main_step s (s\<lparr>as_in_flight := as_in_flight s - {key it}, as_main := MIdle\<rparr>)"

inductive worker_step :: "nat \<Rightarrow> api_state \<Rightarrow> api_state \<Rightarrow> bool" for workers :: nat where
  get: "i < workers \<Longrightarrow> as_workers s i = WIdle \<Longrightarrow> as_queue s = it # q \<Longrightarrow>
     worker_step workers s (s\<lparr>as_queue := q, as_workers := (as_workers s)(i := WGot it)\<rparr>)"
| emit: "i < workers \<Longrightarrow> as_workers s i = WGot it \<Longrightarrow>
     worker_step workers s (s\<lparr>as_workers := (as_workers s)(i := WEmitted it),
       as_trace := as_trace s @ [EventTried it ok],
       as_events_emitted := as_events_emitted s + (if ok then 1 else 0)\<rparr>)"
| delete: "i < workers \<Longrightarrow> as_workers s i = WEmitted it \<Longrightarrow>
     worker_step workers s (count_delete out (s\<lparr>as_workers := (as_workers s)(i := WDeleted it),
       as_trace := as_trace s @ [DeleteTried it out]\<rparr>))"
| finish: "i < workers \<Longrightarrow> as_workers s i = WDeleted it \<Longrightarrow>
     worker_step workers s (s\<lparr>as_in_flight := as_in_flight s - {key it},
       as_workers := (as_workers s)(i := WIdle)\<rparr>)"

definition api_step :: "nat \<Rightarrow> api_state \<Rightarrow> api_state \<Rightarrow> bool" where
  "api_step workers s s' = (main_step s s' \<or> worker_step workers s s')"

inductive_cases main_stepE: "main_step s s'"

inductive_cases worker_stepE: "worker_step workers s s'"

section \<open>Invariants of a step relation\<close>

locale step_invariant =
  fixes step :: "'s \<Rightarrow> 's \<Rightarrow> bool" and inv :: "'s \<Rightarrow> bool"
  assumes preserved: "inv s \<Longrightarrow> step s s' \<Longrightarrow> inv s'"
begin

lemma reachable: "step\<^sup>*\<^sup>* s s' \<Longrightarrow> inv s \<Longrightarrow> inv s'"
  by (induction rule: rtranclp_induct) (auto intro: preserved)

end

section \<open>Who holds which pod\<close>

fun worker_key :: "worker_pc \<Rightarrow> (string \<times> string) option" where
  "worker_key WIdle = None"
| "worker_key (WGot it) = Some (key it)"
| "worker_key (WEmitted it) = Some (key it)"
| "worker_key (WDeleted it) = Some (key it)"

fun main_key :: "main_pc \<Rightarrow> (string \<times> string) option" where
  "main_key MIdle = None"
| "main_key (MClaimed it) = Some (key it)"
| "main_key (MFull it) = Some (key it)"

text \<open>Every pod in flight is in exactly one place, and no other pod is in any.\<close>

definition places_ok ::
    "'k list \<Rightarrow> (nat \<Rightarrow> 'k option) \<Rightarrow> 'k option \<Rightarrow> 'k set \<Rightarrow> bool" where
  "places_ok ks wk mk in_flight =
     (distinct ks \<and> length ks \<le> queue_maxsize \<and>
      (\<forall>i j k. wk i = Some k \<and> wk j = Some k \<longrightarrow> i = j) \<and>
      (\<forall>i k. wk i = Some k \<longrightarrow> k \<notin> set ks \<and> mk \<noteq> Some k) \<and>
      (\<forall>k. mk = Some k \<longrightarrow> k \<notin> set ks) \<and>
      (\<forall>k. k \<in> in_flight \<longleftrightarrow> k \<in> set ks \<or> (\<exists>i. wk i = Some k) \<or> mk = Some k))"

definition worker_keys :: "(nat \<Rightarrow> worker_pc) \<Rightarrow> nat \<Rightarrow> (string \<times> string) option" where
  "worker_keys ws i = worker_key (ws i)"

definition api_inv :: "api_state \<Rightarrow> bool" where
  "api_inv s =
     places_ok (map key (as_queue s)) (worker_keys (as_workers s)) (main_key (as_main s)) (as_in_flight s)"

lemma worker_keys_upd [simp]: "worker_keys (ws(i := w)) = (worker_keys ws)(i := worker_key w)"
  by (auto simp: worker_keys_def fun_eq_iff)

lemma worker_keys_same:
  "worker_key (ws i) = worker_key w \<Longrightarrow> (worker_keys ws)(i := worker_key w) = worker_keys ws"
  by (auto simp: worker_keys_def fun_eq_iff)

lemma api_inv_init: "api_inv api_init"
  by (simp add: api_inv_def places_ok_def api_init_def worker_keys_def)

lemma places_claim:
  "places_ok ks wk None fl \<Longrightarrow> k \<notin> fl \<Longrightarrow> places_ok ks wk (Some k) (insert k fl)"
  by (auto simp: places_ok_def)

lemma places_put:
  "places_ok ks wk (Some k) fl \<Longrightarrow> length ks < queue_maxsize \<Longrightarrow> places_ok (ks @ [k]) wk None fl"
  by (auto simp: places_ok_def)

lemma places_discard:
  "places_ok ks wk (Some k) fl \<Longrightarrow> places_ok ks wk None (fl - {k})"
  by (auto simp: places_ok_def)

lemma held_after_get:
  "wk i = None \<Longrightarrow> (\<exists>j. (wk(i := Some k)) j = Some k') \<longleftrightarrow> k' = k \<or> (\<exists>j. wk j = Some k')"
  by (auto split: if_splits) (metis option.distinct(1))

lemma held_after_finish:
  assumes "wk i = Some k" "\<forall>i j k. wk i = Some k \<and> wk j = Some k \<longrightarrow> i = j"
  shows "(\<exists>j. (wk(i := None)) j = Some k') \<longleftrightarrow> k' \<noteq> k \<and> (\<exists>j. wk j = Some k')"
proof
  assume "\<exists>j. (wk(i := None)) j = Some k'"
  then obtain j where "j \<noteq> i" "wk j = Some k'" by (auto split: if_splits)
  with assms show "k' \<noteq> k \<and> (\<exists>j. wk j = Some k')" by blast
next
  assume "k' \<noteq> k \<and> (\<exists>j. wk j = Some k')"
  then obtain j where "k' \<noteq> k" "wk j = Some k'" by blast
  with assms(1) have "(wk(i := None)) j = Some k'" by auto
  then show "\<exists>j. (wk(i := None)) j = Some k'" by blast
qed

lemma places_get:
  assumes "places_ok (k # ks) wk mk fl" "wk i = None"
  shows "places_ok ks (wk(i := Some k)) mk fl"
proof -
  have a: "k \<notin> set ks" "distinct ks" "length ks \<le> queue_maxsize"
    and b: "\<forall>i j k. wk i = Some k \<and> wk j = Some k \<longrightarrow> i = j"
    and c: "\<forall>i k'. wk i = Some k' \<longrightarrow> k' \<noteq> k \<and> k' \<notin> set ks \<and> mk \<noteq> Some k'"
    and d: "\<forall>k'. mk = Some k' \<longrightarrow> k' \<noteq> k \<and> k' \<notin> set ks"
    and e: "\<forall>k'. k' \<in> fl \<longleftrightarrow> (k' = k \<or> k' \<in> set ks) \<or> (\<exists>i. wk i = Some k') \<or> mk = Some k'"
    using assms(1) by (simp_all add: places_ok_def)
  have "\<forall>x y z. (wk(i := Some k)) x = Some z \<and> (wk(i := Some k)) y = Some z \<longrightarrow> x = y"
  proof (intro allI impI)
    fix x y z
    assume h: "(wk(i := Some k)) x = Some z \<and> (wk(i := Some k)) y = Some z"
    then show "x = y"
      using b [rule_format, of x z y] c [rule_format, of x z] c [rule_format, of y z]
      by (cases "x = i"; cases "y = i") simp_all
  qed
  moreover have "\<forall>x z. (wk(i := Some k)) x = Some z \<longrightarrow> z \<notin> set ks \<and> mk \<noteq> Some z"
    using a(1) c d by auto
  moreover have "(\<exists>j. (wk(i := Some k)) j = Some k') \<longleftrightarrow> k' = k \<or> (\<exists>j. wk j = Some k')" for k'
    by (rule held_after_get) (rule assms(2))
  then have "\<forall>k'. k' \<in> fl \<longleftrightarrow> k' \<in> set ks \<or> (\<exists>j. (wk(i := Some k)) j = Some k') \<or> mk = Some k'"
    by (simp only: e [rule_format]) blast
  moreover have "\<forall>k'. mk = Some k' \<longrightarrow> k' \<notin> set ks" using d by simp
  ultimately show ?thesis
    using a(2,3) unfolding places_ok_def by (intro conjI)
qed

lemma places_finish:
  assumes "places_ok ks wk mk fl" "wk i = Some k"
  shows "places_ok ks (wk(i := None)) mk (fl - {k})"
proof -
  have a: "distinct ks" "length ks \<le> queue_maxsize"
    and b: "\<forall>i j k. wk i = Some k \<and> wk j = Some k \<longrightarrow> i = j"
    and c: "\<forall>i k'. wk i = Some k' \<longrightarrow> k' \<notin> set ks \<and> mk \<noteq> Some k'"
    and d: "\<forall>k'. mk = Some k' \<longrightarrow> k' \<notin> set ks"
    and e: "\<forall>k'. k' \<in> fl \<longleftrightarrow> k' \<in> set ks \<or> (\<exists>i. wk i = Some k') \<or> mk = Some k'"
    using assms(1) by (simp_all add: places_ok_def)
  have "\<forall>x y z. (wk(i := None)) x = Some z \<and> (wk(i := None)) y = Some z \<longrightarrow> x = y"
    using b by simp
  moreover have "\<forall>x z. (wk(i := None)) x = Some z \<longrightarrow> z \<notin> set ks \<and> mk \<noteq> Some z"
    using c by simp
  moreover have "k \<notin> set ks" "mk \<noteq> Some k" using c assms(2) by blast+
  moreover have "(\<exists>j. (wk(i := None)) j = Some k') \<longleftrightarrow> k' \<noteq> k \<and> (\<exists>j. wk j = Some k')" for k'
    by (rule held_after_finish [OF assms(2) b])
  then have "\<forall>k'. k' \<in> fl - {k} \<longleftrightarrow> k' \<in> set ks \<or> (\<exists>j. (wk(i := None)) j = Some k') \<or> mk = Some k'"
    using \<open>k \<notin> set ks\<close> \<open>mk \<noteq> Some k\<close> by (simp only: e [rule_format] Diff_iff singleton_iff) blast
  ultimately show ?thesis
    using a d unfolding places_ok_def by (intro conjI)
qed

lemma count_delete_fields [simp]:
  "as_queue (count_delete out s) = as_queue s" "as_in_flight (count_delete out s) = as_in_flight s"
  "as_main (count_delete out s) = as_main s" "as_workers (count_delete out s) = as_workers s"
  "as_trace (count_delete out s) = as_trace s"
  by (auto simp: count_delete_def split: delete_outcome.split)

lemma main_step_inv: "main_step s s' \<Longrightarrow> api_inv s \<Longrightarrow> api_inv s'"
  by (induction rule: main_step.induct)
    (auto simp: api_inv_def places_claim places_put places_discard)

lemma worker_step_inv: "worker_step workers s s' \<Longrightarrow> api_inv s \<Longrightarrow> api_inv s'"
proof (induction rule: worker_step.induct)
  case (get i s it q)
  then show ?case by (simp add: api_inv_def places_get worker_keys_def)
next
  case (finish i s it)
  then show ?case by (simp add: api_inv_def places_finish worker_keys_def)
qed (simp_all add: api_inv_def worker_keys_same [of _ _ "WEmitted _", simplified]
  worker_keys_same [of _ _ "WDeleted _", simplified])

interpretation places: step_invariant "api_step workers" api_inv for workers
  by unfold_locales (auto simp: api_step_def intro: main_step_inv worker_step_inv)

section \<open>The trace\<close>

text \<open>Every deletion was preceded by the attempt at an Event for the same task.\<close>

fun events_first :: "task_item set \<Rightarrow> api_action list \<Rightarrow> bool" where
  "events_first seen [] = True"
| "events_first seen (EventTried it ok # acts) = events_first (insert it seen) acts"
| "events_first seen (DeleteTried it out # acts) = (it \<in> seen \<and> events_first seen acts)"

definition tried :: "api_action list \<Rightarrow> task_item set" where
  "tried acts = {it. \<exists>ok. EventTried it ok \<in> set acts}"

lemma tried_append [simp]: "tried (a @ b) = tried a \<union> tried b"
  by (auto simp: tried_def)

lemma tried_simps [simp]:
  "tried [] = {}" "tried [EventTried it ok] = {it}" "tried [DeleteTried it out] = {}"
  by (auto simp: tried_def)

lemma tried_Cons: "tried (EventTried it ok # acts) = insert it (tried acts)"
    "tried (DeleteTried it out # acts) = tried acts"
  by (auto simp: tried_def)

lemma events_first_append:
  "events_first seen (a @ b) \<longleftrightarrow> events_first seen a \<and> events_first (seen \<union> tried a) b"
  by (induction seen a rule: events_first.induct) (auto simp: tried_Cons insert_commute)

definition trace_inv :: "api_state \<Rightarrow> bool" where
  "trace_inv s =
     (events_first {} (as_trace s) \<and> (\<forall>i it. as_workers s i = WEmitted it \<longrightarrow> it \<in> tried (as_trace s)))"

lemma trace_inv_main: "main_step s s' \<Longrightarrow> trace_inv s \<Longrightarrow> trace_inv s'"
  by (induction rule: main_step.induct) (auto simp: trace_inv_def)

lemma trace_inv_worker: "worker_step workers s s' \<Longrightarrow> trace_inv s \<Longrightarrow> trace_inv s'"
  by (induction rule: worker_step.induct)
    (auto simp: trace_inv_def events_first_append split: if_splits)

interpretation traces: step_invariant "api_step workers" trace_inv for workers
  by unfold_locales (auto simp: api_step_def intro: trace_inv_main trace_inv_worker)

lemma trace_inv_init: "trace_inv api_init"
  by (simp add: trace_inv_def api_init_def)

section \<open>Draining the queue\<close>

fun stages_left :: "worker_pc \<Rightarrow> nat" where
  "stages_left WIdle = 0"
| "stages_left (WGot it) = 3"
| "stages_left (WEmitted it) = 2"
| "stages_left (WDeleted it) = 1"

definition work :: "nat \<Rightarrow> api_state \<Rightarrow> nat" where
  "work workers s = 4 * length (as_queue s) + (\<Sum>i < workers. stages_left (as_workers s i))"

lemma stages_upd:
  fixes i workers :: nat
  assumes "i < workers"
  shows "(\<Sum>j < workers. stages_left ((ws(i := w)) j)) + stages_left (ws i)
    = (\<Sum>j < workers. stages_left (ws j)) + stages_left w"
proof -
  have "(\<Sum>j < workers. stages_left (f j)) = stages_left (f i) + (\<Sum>j \<in> {..<workers} - {i}. stages_left (f j))" for f
    using assms by (intro sum.remove) auto
  moreover have "(\<Sum>j \<in> {..<workers} - {i}. stages_left ((ws(i := w)) j)) = (\<Sum>j \<in> {..<workers} - {i}. stages_left (ws j))"
    by (intro sum.cong) auto
  ultimately show ?thesis by simp
qed

lemma worker_step_work: "worker_step workers s s' \<Longrightarrow> Suc (work workers s') = work workers s"
proof (induction rule: worker_step.induct)
  case (get i s it q)
  then show ?case using stages_upd [of i workers "as_workers s" "WGot it"] by (simp add: work_def)
next
  case (emit i s it ok)
  then show ?case using stages_upd [of i workers "as_workers s" "WEmitted it"] by (simp add: work_def)
next
  case (delete i s it out)
  then show ?case using stages_upd [of i workers "as_workers s" "WDeleted it"] by (simp add: work_def)
next
  case (finish i s it)
  then show ?case using stages_upd [of i workers "as_workers s" "WIdle"] by (simp add: work_def)
qed

lemma worker_step_enabled:
  assumes "0 < workers" "0 < work workers s"
  shows "\<exists>s'. worker_step workers s s'"
proof (cases "\<exists>i < workers. as_workers s i \<noteq> WIdle")
  case True
  then obtain i where i: "i < workers" "as_workers s i \<noteq> WIdle" by blast
  then show ?thesis
    by (cases "as_workers s i") (blast intro: emit delete finish)+
next
  case False
  with assms have "as_queue s \<noteq> []" by (auto simp: work_def)
  then obtain it q where "as_queue s = it # q" by (cases "as_queue s") auto
  with False assms(1) show ?thesis by (blast intro: get)
qed

lemma drain:
  assumes "0 < workers"
  shows "\<exists>s'. (worker_step workers)\<^sup>*\<^sup>* s s' \<and> work workers s' = 0"
proof (induction "work workers s" arbitrary: s rule: less_induct)
  case less
  show ?case
  proof (cases "work workers s = 0")
    case False
    then obtain s1 where s1: "worker_step workers s s1"
      using worker_step_enabled [OF assms, of s] by auto
    with less [of s1] worker_step_work [OF s1] obtain s' where
      "(worker_step workers)\<^sup>*\<^sup>* s1 s'" "work workers s' = 0" by fastforce
    with s1 show ?thesis by (blast intro: converse_rtranclp_into_rtranclp)
  qed blast
qed

lemma worker_star_api: "(worker_step workers)\<^sup>*\<^sup>* s s' \<Longrightarrow> (api_step workers)\<^sup>*\<^sup>* s s'"
  by (induction rule: rtranclp_induct) (auto simp: api_step_def intro: rtranclp.rtrancl_into_rtrancl)

lemma worker_step_main: "worker_step workers s s' \<Longrightarrow> as_main s' = as_main s"
  by (induction rule: worker_step.induct) auto

lemma worker_star_main: "(worker_step workers)\<^sup>*\<^sup>* s s' \<Longrightarrow> as_main s' = as_main s"
  by (induction rule: rtranclp_induct) (auto dest: worker_step_main)

text \<open>Workers beyond the pool never move.\<close>

definition pool_inv :: "nat \<Rightarrow> api_state \<Rightarrow> bool" where
  "pool_inv workers s = (\<forall>i \<ge> workers. as_workers s i = WIdle)"

lemma pool_inv_step: "api_step workers s s' \<Longrightarrow> pool_inv workers s \<Longrightarrow> pool_inv workers s'"
  by (auto simp: api_step_def pool_inv_def elim!: main_stepE worker_stepE)

interpretation pool: step_invariant "api_step workers" "pool_inv workers" for workers
  by unfold_locales (rule pool_inv_step)

lemma no_work:
  assumes "work workers s = 0" "pool_inv workers s"
  shows "as_queue s = [] \<and> as_workers s = (\<lambda>i. WIdle)"
proof -
  have "as_workers s i = WIdle" for i
  proof (cases "i < workers")
    case True
    with assms(1) have "stages_left (as_workers s i) = 0" by (simp add: work_def)
    then show ?thesis by (cases "as_workers s i") auto
  qed (use assms(2) in \<open>simp add: pool_inv_def\<close>)
  with assms(1) show ?thesis by (auto simp: work_def)
qed

section \<open>The verdict thread\<close>

text \<open>The killer's queue and in-flight set inside a state of the concurrent system, its thread idle.\<close>

definition with_queue :: "killer \<Rightarrow> api_state \<Rightarrow> api_state" where
  "with_queue k s =
     s\<lparr>as_queue := ki_queue k, as_in_flight := set (ki_in_flight k), as_main := MIdle\<rparr>"

lemma queue_delete_steps:
  assumes "queue_delete ns name reason b k sh = (k', sh')"
  shows "main_step\<^sup>*\<^sup>* (with_queue k s) (with_queue k' s)"
proof -
  let ?it = "(ns, name, reason)"
  let ?s = "with_queue k s"
  let ?claimed = "?s\<lparr>as_in_flight := insert (ns, name) (as_in_flight ?s), as_main := MClaimed ?it\<rparr>"
  consider (dup) "(ns, name) \<in> set (ki_in_flight k)"
    | (room) "(ns, name) \<notin> set (ki_in_flight k)" "length (ki_queue k) < queue_maxsize"
    | (full) "(ns, name) \<notin> set (ki_in_flight k)" "\<not> length (ki_queue k) < queue_maxsize"
    by blast
  then show ?thesis
  proof cases
    case dup
    with assms show ?thesis by (simp add: queue_delete_def)
  next
    case room
    have 1: "main_step ?s ?claimed"
      using claim [of ?s ?it] room by (simp add: with_queue_def key_def)
    have 2: "main_step ?claimed (?claimed\<lparr>as_queue := as_queue ?claimed @ [?it], as_main := MIdle\<rparr>)"
      using put [of ?claimed ?it] room by (simp add: with_queue_def)
    have "with_queue k' s = ?claimed\<lparr>as_queue := as_queue ?claimed @ [?it], as_main := MIdle\<rparr>"
      using assms room by (auto simp: queue_delete_def with_queue_def)
    with 1 2 show ?thesis by (simp add: converse_rtranclp_into_rtranclp)
  next
    case full
    let ?full = "?claimed\<lparr>as_main := MFull ?it\<rparr>"
    have 1: "main_step ?s ?claimed"
      using claim [of ?s ?it] full by (simp add: with_queue_def key_def)
    have 2: "main_step ?claimed ?full"
      using main_step.full [of ?claimed ?it] full by (simp add: with_queue_def)
    have 3: "main_step ?full (?full\<lparr>as_in_flight := as_in_flight ?full - {(ns, name)}, as_main := MIdle\<rparr>)"
      using discard [of ?full ?it] by (simp add: key_def)
    have "with_queue k' s = ?full\<lparr>as_in_flight := as_in_flight ?full - {(ns, name)}, as_main := MIdle\<rparr>"
      using assms full by (auto simp: queue_delete_def with_queue_def)
    with 1 2 3 show ?thesis by (metis converse_rtranclp_into_rtranclp rtranclp.rtrancl_refl)
  qed
qed

lemma kill_resolved_steps:
  assumes "kill_resolved env c ns name reason k sh = (v, k', sh')"
  shows "main_step\<^sup>*\<^sup>* (with_queue k s) (with_queue k' s)"
proof (cases "ki_dry_run k")
  case True
  with assms show ?thesis by (auto simp: kill_resolved_def)
next
  case False
  obtain b sh1 where f: "freeze_and_kill_cgroup env c sh = (b, sh1)" by fastforce
  obtain k2 sh2 where q: "queue_delete ns name reason b k sh1 = (k2, sh2)" by fastforce
  have "k' = k2" using assms False f q by (simp add: kill_resolved_def)
  with queue_delete_steps [OF q] show ?thesis by simp
qed

lemma with_queue_cong:
  "ki_queue k = ki_queue k' \<Longrightarrow> ki_in_flight k = ki_in_flight k' \<Longrightarrow> with_queue k s = with_queue k' s"
  by (simp add: with_queue_def)

lemma main_star_api: "main_step\<^sup>*\<^sup>* s s' \<Longrightarrow> (api_step workers)\<^sup>*\<^sup>* s s'"
  by (induction rule: rtranclp_induct) (auto simp: api_step_def intro: rtranclp.rtrancl_into_rtrancl)

lemma handle_kill_steps:
  assumes "handle_kill env c reason k sh = (v, k', sh')"
  shows "main_step\<^sup>*\<^sup>* (with_queue k s) (with_queue k' s)"
  using assms
proof (cases rule: handle_kill_cases)
  case spared
  then have "with_queue k' s = with_queue k s" by (intro with_queue_cong)
  then show ?thesis by simp
next
  case (killed ns name p uid sh0 k1 sh1)
  from kill_resolved_steps [OF killed(7)] have "main_step\<^sup>*\<^sup>* (with_queue k1 s) (with_queue k' s)" .
  moreover have "with_queue k1 s = with_queue k s" by (intro with_queue_cong killed(10,11))
  ultimately show ?thesis by simp
qed

section \<open>One task from claim to deletion\<close>

definition demo_item :: task_item where
  "demo_item = (''prod'', ''app'', ''setns'')"

definition demo_queued :: api_state where
  "demo_queued = api_init\<lparr>as_in_flight := {key demo_item}, as_queue := [demo_item]\<rparr>"

definition demo_deleted :: api_state where
  "demo_deleted = api_init\<lparr>as_in_flight := {key demo_item}, as_workers := (\<lambda>i. WIdle)(0 := WDeleted demo_item),
     as_trace := [EventTried demo_item True, DeleteTried demo_item Deleted],
     as_api_deletes := 1, as_events_emitted := 1\<rparr>"

lemma demo_run_queued: "(api_step 2)\<^sup>*\<^sup>* api_init demo_queued"
proof -
  let ?k = "\<lparr>ki_dry_run = False, ki_exclude = [], ki_warn_only = [], ki_repeat = None, ki_queue = [], ki_in_flight = []\<rparr>"
  obtain k' sh' where q: "queue_delete ''prod'' ''app'' ''setns'' True ?k demo_shared = (k', sh')" by fastforce
  then have k': "with_queue k' api_init = demo_queued" "with_queue ?k api_init = api_init"
    by (auto simp: queue_delete_def queue_maxsize_def with_queue_def demo_queued_def demo_item_def
        key_def api_init_def)
  from main_star_api [OF queue_delete_steps [OF q, of api_init], of 2] show ?thesis by (simp add: k')
qed

lemma demo_run_deleted: "(api_step 2)\<^sup>*\<^sup>* api_init demo_deleted"
proof -
  let ?got = "demo_queued\<lparr>as_queue := [], as_workers := (as_workers demo_queued)(0 := WGot demo_item)\<rparr>"
  let ?emitted = "?got\<lparr>as_workers := (as_workers ?got)(0 := WEmitted demo_item),
     as_trace := as_trace ?got @ [EventTried demo_item True], as_events_emitted := as_events_emitted ?got + 1\<rparr>"
  have 1: "worker_step 2 demo_queued ?got"
    by (rule get) (simp_all add: demo_queued_def api_init_def)
  have 2: "worker_step 2 ?got ?emitted"
    using emit [of 0 2 ?got demo_item True] by simp
  have 3: "worker_step 2 ?emitted demo_deleted"
    using delete [of 0 2 ?emitted demo_item Deleted]
    by (simp add: count_delete_def demo_deleted_def demo_queued_def api_init_def)
  have "(worker_step 2)\<^sup>*\<^sup>* ?got ?emitted" using 2 by (rule r_into_rtranclp)
  then have "(worker_step 2)\<^sup>*\<^sup>* ?got demo_deleted" using 3 by (rule rtranclp.rtrancl_into_rtrancl)
  with 1 have "(worker_step 2)\<^sup>*\<^sup>* demo_queued demo_deleted" by (rule converse_rtranclp_into_rtranclp)
  then have "(api_step 2)\<^sup>*\<^sup>* demo_queued demo_deleted" by (rule worker_star_api)
  with demo_run_queued show ?thesis by (rule rtranclp_trans)
qed

section \<open>Properties\<close>

text \<open>C9. Whatever the interleaving of the verdict thread with the workers, a pod in flight is in one
  place only: the queue holds no pod twice and at most a thousand, no two workers handle the same
  pod, none handles a queued one, the pod the verdict thread is claiming is neither queued nor with a
  worker, and the set of pods in flight is exactly those queued, handled or being claimed.\<close>
theorem one_deletion_per_pod:
  assumes "(api_step workers)\<^sup>*\<^sup>* api_init s"
  shows "distinct (map key (as_queue s)) \<and> length (as_queue s) \<le> queue_maxsize \<and>
     (\<forall>i j k. worker_keys (as_workers s) i = Some k \<and> worker_keys (as_workers s) j = Some k \<longrightarrow> i = j) \<and>
     (\<forall>i k. worker_keys (as_workers s) i = Some k \<longrightarrow> k \<notin> set (map key (as_queue s))) \<and>
     (\<forall>k. main_key (as_main s) = Some k \<longrightarrow>
        k \<notin> set (map key (as_queue s)) \<and> (\<forall>i. worker_keys (as_workers s) i \<noteq> Some k)) \<and>
     (\<forall>k. k \<in> as_in_flight s \<longleftrightarrow> k \<in> set (map key (as_queue s)) \<or>
        (\<exists>i. worker_keys (as_workers s) i = Some k) \<or> main_key (as_main s) = Some k)"
  using places.reachable [OF assms api_inv_init] unfolding api_inv_def places_ok_def by simp blast

text \<open>Witness of C9: a claimed pod, which is nowhere else.\<close>
theorem one_deletion_per_pod_witness:
  "\<exists>s. (api_step 2)\<^sup>*\<^sup>* api_init s \<and> as_main s = MClaimed (''prod'', ''app'', ''setns'') \<and>
     (''prod'', ''app'') \<in> as_in_flight s \<and> (''prod'', ''app'') \<notin> set (map key (as_queue s)) \<and>
     worker_keys (as_workers s) 0 \<noteq> Some (''prod'', ''app'')"
proof -
  let ?it = "(''prod'', ''app'', ''setns'')"
  let ?s = "api_init\<lparr>as_in_flight := {(''prod'', ''app'')}, as_main := MClaimed ?it\<rparr>"
  have "main_step api_init ?s"
    using claim [of api_init ?it] by (simp add: api_init_def key_def)
  then have "(api_step 2)\<^sup>*\<^sup>* api_init ?s" by (intro r_into_rtranclp) (simp add: api_step_def)
  with one_deletion_per_pod [OF this] show ?thesis by (intro exI [of _ ?s]) (simp add: key_def)
qed

text \<open>The Event comes first: in every run, each attempt at a deletion is preceded by the attempt
  at the Event of the same task.\<close>
lemma event_before_deletion:
  assumes "(api_step workers)\<^sup>*\<^sup>* api_init s" and "as_trace s = before @ DeleteTried it out # rest"
  shows "\<exists>ok. EventTried it ok \<in> set before"
proof -
  have "events_first {} (as_trace s)"
    using traces.reachable [OF assms(1) trace_inv_init] by (simp add: trace_inv_def)
  with assms(2) have "it \<in> tried before" by (simp add: events_first_append)
  then show ?thesis by (simp add: tried_def)
qed

text \<open>An instance: the deletion at the end of the demo run.\<close>
lemma event_before_deletion_instance:
  "(api_step 2)\<^sup>*\<^sup>* api_init demo_deleted \<and>
   (\<exists>ok. EventTried demo_item ok \<in> set [EventTried demo_item True])"
  using event_before_deletion [OF demo_run_deleted, of "[EventTried demo_item True]" demo_item Deleted "[]"]
    demo_run_deleted
  by (simp add: demo_deleted_def)

text \<open>C19. Deletions drain: with at least one worker, every step of a worker consumes work, some worker
  can move as long as any work is left, and so from every reachable state whose verdict thread is
  idle the workers alone reach a state with an empty queue and no pod in flight.\<close>
theorem deletions_drain:
  assumes "0 < workers" and "(api_step workers)\<^sup>*\<^sup>* api_init s" and "as_main s = MIdle"
  shows "(\<forall>s'. worker_step workers s s' \<longrightarrow> work workers s' < work workers s) \<and>
     (0 < work workers s \<longrightarrow> (\<exists>s'. worker_step workers s s')) \<and>
     (\<exists>s'. (worker_step workers)\<^sup>*\<^sup>* s s' \<and> as_queue s' = [] \<and> as_in_flight s' = {})"
proof -
  obtain s' where s': "(worker_step workers)\<^sup>*\<^sup>* s s'" "work workers s' = 0"
    using drain [OF assms(1)] by blast
  have r: "(api_step workers)\<^sup>*\<^sup>* api_init s'"
    using assms(2) worker_star_api [OF s'(1)] by (rule rtranclp_trans)
  have "pool_inv workers s'"
    by (rule pool.reachable [OF r]) (simp add: pool_inv_def api_init_def)
  then have idle: "as_queue s' = []" "as_workers s' = (\<lambda>i. WIdle)"
    using no_work [OF s'(2)] by simp_all
  have "api_inv s'" by (rule places.reachable [OF r api_inv_init])
  then have "as_in_flight s' = {}"
    using idle worker_star_main [OF s'(1)] assms(3)
    by (auto simp: api_inv_def places_ok_def worker_keys_def)
  with s' idle show ?thesis
    using worker_step_work worker_step_enabled [OF assms(1)] by (metis lessI)
qed

text \<open>Witness of C19: one queued deletion and the two workers of the agent.\<close>
theorem deletions_drain_witness:
  "(api_step 2)\<^sup>*\<^sup>* api_init demo_queued \<and> as_queue demo_queued \<noteq> [] \<and>
   (\<exists>s'. (worker_step 2)\<^sup>*\<^sup>* demo_queued s' \<and> as_queue s' = [] \<and> as_in_flight s' = {})"
  using deletions_drain [OF _ demo_run_queued] demo_run_queued
  by (simp add: demo_queued_def api_init_def)

text \<open>C18. The killer's hand-over is a run of the concurrent system: what handling a verdict does to
  the queue and the in-flight set is what steps of the verdict thread do, without interruption, so
  every invariant of the interleaved system holds of it.\<close>
theorem handle_kill_refines_verdict_thread:
  assumes "handle_kill env c reason k sh = (v, k', sh')"
  shows "main_step\<^sup>*\<^sup>* (with_queue k s) (with_queue k' s)"
  using assms by (rule handle_kill_steps)

text \<open>Witness of C18: the kill of the demo cluster's pod.\<close>
theorem handle_kill_refines_verdict_thread_witness:
  "\<exists>v k' sh'. handle_kill (demo_kenv ''prod'') 108000 ''setns'' demo_killer demo_shared = (v, k', sh') \<and>
     main_step\<^sup>*\<^sup>* (with_queue demo_killer api_init) (with_queue k' api_init)"
proof -
  obtain v k' sh' where h: "handle_kill (demo_kenv ''prod'') 108000 ''setns'' demo_killer demo_shared = (v, k', sh')"
    by (metis prod.exhaust)
  with handle_kill_refines_verdict_thread [OF h, of api_init] show ?thesis by blast
qed

end
