(* ===== verification/Kernel.thy ===== *)
theory Kernel
  imports Utf8
begin

text \<open>
  The eBPF program inside \<open>bpf/syscall_tracer.py\<close>: the two maps user space writes, the filter, the
  two kill responses and the fifteen tracepoint probes. A probe is a function of the compile-time
  switch \<open>KERNEL_ENFORCE\<close>, the maps, the task that makes the system call and the string argument
  that \<open>bpf_probe_read_user_str\<close> left in the 256 bytes of \<open>e.filename\<close>; it returns the event it
  submitted, if any, and the signals it sent. The kernel helpers are not part of the repository:
  what they return is read off the task and the argument.
\<close>

section \<open>Maps, task and event\<close>

record kmaps =
  armed_cgroups :: "u64 \<rightharpoonup> u8"
  cgroup_class :: "u64 \<rightharpoonup> u8"

record task =
  t_ktime :: u64
  t_pid_tgid :: u64
  t_cgroup_id :: u64
  t_comm :: string
  t_ppid :: u32

record event_t =
  raw_ktime :: u64
  raw_pid :: u32
  raw_ppid :: u32
  raw_cgroup_id :: u64
  raw_comm :: string
  raw_filename :: string
  raw_syscall_type :: u8
  raw_killed_in_kernel :: u8

definition ARMED_KILL :: u8 where "ARMED_KILL = 1"

definition CLASS_POD :: u8 where "CLASS_POD = 1"

definition CLASS_HOST :: u8 where "CLASS_HOST = 2"

definition CLASS_EXCLUDED :: u8 where "CLASS_EXCLUDED = 3"

definition CLASS_WARN_ONLY :: u8 where "CLASS_WARN_ONLY = 4"

lemmas classes = CLASS_POD_def CLASS_HOST_def CLASS_EXCLUDED_def CLASS_WARN_ONLY_def

text \<open>A C character array holds its bytes and is read as zero past what was written.\<close>

definition byte_at :: "string \<Rightarrow> nat \<Rightarrow> char" where
  "byte_at s i = (if i < length s then s ! i else CHR 0x00)"

section \<open>Filter and responses\<close>

definition should_skip :: "kmaps \<Rightarrow> u64 \<Rightarrow> bool" where
  "should_skip m cgroup_id =
     (case cgroup_class m cgroup_id of
        None \<Rightarrow> False
      | Some cls \<Rightarrow> cls = CLASS_HOST \<or> cls = CLASS_EXCLUDED)"

definition kill_allowed :: "kmaps \<Rightarrow> u64 \<Rightarrow> bool" where
  "kill_allowed m cgroup_id =
     (case cgroup_class m cgroup_id of
        None \<Rightarrow> True
      | Some cls \<Rightarrow> cls \<noteq> CLASS_WARN_ONLY)"

definition is_container_runtime :: "string \<Rightarrow> bool" where
  "is_container_runtime comm =
     (if byte_at comm 0 = CHR ''r'' \<and> byte_at comm 1 = CHR ''u'' \<and> byte_at comm 2 = CHR ''n'' \<and>
         byte_at comm 3 = CHR ''c'' then True
      else if byte_at comm 0 = CHR ''c'' \<and> byte_at comm 1 = CHR ''o'' \<and> byte_at comm 2 = CHR ''n'' \<and>
         byte_at comm 3 = CHR ''t'' \<and> byte_at comm 4 = CHR ''a'' \<and> byte_at comm 5 = CHR ''i'' \<and>
         byte_at comm 6 = CHR ''n'' \<and> byte_at comm 7 = CHR ''e'' \<and> byte_at comm 8 = CHR ''r'' \<and>
         byte_at comm 9 = CHR ''d'' then True
      else if byte_at comm 0 = CHR ''c'' \<and> byte_at comm 1 = CHR ''r'' \<and> byte_at comm 2 = CHR ''u'' \<and>
         byte_at comm 3 = CHR ''n'' \<and> byte_at comm 4 = CHR 0x00 then True
      else if byte_at comm 0 = CHR ''k'' \<and> byte_at comm 1 = CHR ''u'' \<and> byte_at comm 2 = CHR ''b'' \<and>
         byte_at comm 3 = CHR ''e'' \<and> byte_at comm 4 = CHR ''l'' \<and> byte_at comm 5 = CHR ''e'' \<and>
         byte_at comm 6 = CHR ''t'' then True
      else False)"

text \<open>A response returns its C result, the event it may have marked and the signals it sent.\<close>

definition red_line_kill ::
    "bool \<Rightarrow> kmaps \<Rightarrow> task \<Rightarrow> u64 \<Rightarrow> event_t \<Rightarrow> int \<times> event_t \<times> nat list" where
  "red_line_kill KERNEL_ENFORCE m t cgroup_id e =
     (if is_container_runtime (t_comm t) then (0, e, [])
      else if \<not> kill_allowed m cgroup_id then (0, e, [])
      else if KERNEL_ENFORCE then (1, e\<lparr>raw_killed_in_kernel := 1\<rparr>, [9])
      else (0, e, []))"

definition maybe_kill ::
    "bool \<Rightarrow> kmaps \<Rightarrow> task \<Rightarrow> u64 \<Rightarrow> event_t \<Rightarrow> int \<times> event_t \<times> nat list" where
  "maybe_kill KERNEL_ENFORCE m t cgroup_id e =
     (if armed_cgroups m cgroup_id \<noteq> Some ARMED_KILL then (0, e, [])
      else if is_container_runtime (t_comm t) then (0, e, [])
      else if \<not> kill_allowed m cgroup_id then (0, e, [])
      else if KERNEL_ENFORCE then (1, e\<lparr>raw_killed_in_kernel := 1\<rparr>, [9])
      else (1, e, []))"

definition zero_event :: event_t where
  "zero_event =
     \<lparr>raw_ktime = 0, raw_pid = 0, raw_ppid = 0, raw_cgroup_id = 0,
      raw_comm = replicate 16 (CHR 0x00), raw_filename = replicate 256 (CHR 0x00),
      raw_syscall_type = 0, raw_killed_in_kernel = 0\<rparr>"

definition fill_common :: "task \<Rightarrow> event_t \<Rightarrow> event_t" where
  "fill_common t e =
     e\<lparr>raw_ktime := t_ktime t,
       raw_pid := ucast (drop_bit 32 (t_pid_tgid t)),
       raw_cgroup_id := t_cgroup_id t,
       raw_comm := t_comm t,
       raw_ppid := t_ppid t\<rparr>"

section \<open>The probes\<close>

record probe_out =
  submitted :: "event_t option"
  signals :: "nat list"

definition dropped :: probe_out where
  "dropped = \<lparr>submitted = None, signals = []\<rparr>"

definition perf_submit :: "event_t \<Rightarrow> nat list \<Rightarrow> probe_out" where
  "perf_submit e sigs = \<lparr>submitted = Some e, signals = sigs\<rparr>"

definition sys_enter_execve :: "kmaps \<Rightarrow> task \<Rightarrow> string \<Rightarrow> probe_out" where
  "sys_enter_execve m t filename =
     (let cgroup_id = t_cgroup_id t
      in if should_skip m cgroup_id then dropped
         else let e = (fill_common t zero_event)\<lparr>raw_syscall_type := 0, raw_filename := filename\<rparr>
              in perf_submit e [])"

definition sys_enter_openat :: "kmaps \<Rightarrow> task \<Rightarrow> string \<Rightarrow> probe_out" where
  "sys_enter_openat m t filename =
     (let cgroup_id = t_cgroup_id t
      in if should_skip m cgroup_id then dropped
         else let e = (fill_common t zero_event)\<lparr>raw_syscall_type := 1, raw_filename := filename\<rparr>
              in perf_submit e [])"

definition sys_enter_chroot :: "bool \<Rightarrow> kmaps \<Rightarrow> task \<Rightarrow> string \<Rightarrow> probe_out" where
  "sys_enter_chroot enforce m t filename =
     (let cgroup_id = t_cgroup_id t
      in if should_skip m cgroup_id then dropped
         else let e = (fill_common t zero_event)\<lparr>raw_syscall_type := 2, raw_filename := filename\<rparr>;
                  (ret, e, sigs) = maybe_kill enforce m t (raw_cgroup_id e) e
              in perf_submit e sigs)"

definition sys_enter_mount :: "bool \<Rightarrow> kmaps \<Rightarrow> task \<Rightarrow> string \<Rightarrow> probe_out" where
  "sys_enter_mount enforce m t dev_name =
     (let cgroup_id = t_cgroup_id t
      in if should_skip m cgroup_id then dropped
         else let e = (fill_common t zero_event)\<lparr>raw_syscall_type := 3, raw_filename := dev_name\<rparr>;
                  (ret, e, sigs) = maybe_kill enforce m t (raw_cgroup_id e) e
              in perf_submit e sigs)"

definition sys_enter_move_mount :: "bool \<Rightarrow> kmaps \<Rightarrow> task \<Rightarrow> string \<Rightarrow> probe_out" where
  "sys_enter_move_mount enforce m t to_pathname =
     (let cgroup_id = t_cgroup_id t
      in if should_skip m cgroup_id then dropped
         else let e = (fill_common t zero_event)\<lparr>raw_syscall_type := 5, raw_filename := to_pathname\<rparr>;
                  (ret, e, sigs) = maybe_kill enforce m t (raw_cgroup_id e) e
              in perf_submit e sigs)"

definition sys_enter_open_tree :: "kmaps \<Rightarrow> task \<Rightarrow> string \<Rightarrow> probe_out" where
  "sys_enter_open_tree m t filename =
     (let cgroup_id = t_cgroup_id t
      in if should_skip m cgroup_id then dropped
         else let e = (fill_common t zero_event)\<lparr>raw_syscall_type := 6, raw_filename := filename\<rparr>
              in perf_submit e [])"

definition sys_enter_fsmount :: "bool \<Rightarrow> kmaps \<Rightarrow> task \<Rightarrow> probe_out" where
  "sys_enter_fsmount enforce m t =
     (let cgroup_id = t_cgroup_id t
      in if should_skip m cgroup_id then dropped
         else let e = (fill_common t zero_event)\<lparr>raw_syscall_type := 7\<rparr>;
                  (ret, e, sigs) = maybe_kill enforce m t (raw_cgroup_id e) e
              in perf_submit e sigs)"

definition sys_enter_pivot_root :: "bool \<Rightarrow> kmaps \<Rightarrow> task \<Rightarrow> string \<Rightarrow> probe_out" where
  "sys_enter_pivot_root enforce m t new_root =
     (let cgroup_id = t_cgroup_id t
      in if should_skip m cgroup_id then dropped
         else let e = (fill_common t zero_event)\<lparr>raw_syscall_type := 8, raw_filename := new_root\<rparr>;
                  (ret, e, sigs) = red_line_kill enforce m t cgroup_id e
              in perf_submit e sigs)"

definition sys_enter_ptrace :: "bool \<Rightarrow> kmaps \<Rightarrow> task \<Rightarrow> probe_out" where
  "sys_enter_ptrace enforce m t =
     (let cgroup_id = t_cgroup_id t
      in if should_skip m cgroup_id then dropped
         else let e = (fill_common t zero_event)\<lparr>raw_syscall_type := 9\<rparr>;
                  (ret, e, sigs) = maybe_kill enforce m t (raw_cgroup_id e) e
              in perf_submit e sigs)"

definition sys_enter_openat2 :: "kmaps \<Rightarrow> task \<Rightarrow> string \<Rightarrow> probe_out" where
  "sys_enter_openat2 m t filename =
     (let cgroup_id = t_cgroup_id t
      in if should_skip m cgroup_id then dropped
         else let e = (fill_common t zero_event)\<lparr>raw_syscall_type := 1, raw_filename := filename\<rparr>
              in perf_submit e [])"

definition AF_UNIX :: u16 where "AF_UNIX = 1"

definition sys_enter_connect :: "kmaps \<Rightarrow> task \<Rightarrow> u16 \<Rightarrow> string \<Rightarrow> probe_out" where
  "sys_enter_connect m t sa_family sun_path =
     (let cgroup_id = t_cgroup_id t
      in if should_skip m cgroup_id then dropped
         else if sa_family \<noteq> AF_UNIX then dropped
         else let e = (fill_common t zero_event)\<lparr>raw_syscall_type := 10, raw_filename := sun_path\<rparr>
              in perf_submit e [])"

definition sys_enter_init_module :: "bool \<Rightarrow> kmaps \<Rightarrow> task \<Rightarrow> probe_out" where
  "sys_enter_init_module enforce m t =
     (let cgroup_id = t_cgroup_id t
      in if should_skip m cgroup_id then dropped
         else let e = (fill_common t zero_event)\<lparr>raw_syscall_type := 11\<rparr>;
                  (ret, e, sigs) = red_line_kill enforce m t cgroup_id e
              in perf_submit e sigs)"

definition sys_enter_finit_module :: "bool \<Rightarrow> kmaps \<Rightarrow> task \<Rightarrow> string \<Rightarrow> probe_out" where
  "sys_enter_finit_module enforce m t uargs =
     (let cgroup_id = t_cgroup_id t
      in if should_skip m cgroup_id then dropped
         else let e = (fill_common t zero_event)\<lparr>raw_syscall_type := 12, raw_filename := uargs\<rparr>;
                  (ret, e, sigs) = red_line_kill enforce m t cgroup_id e
              in perf_submit e sigs)"

definition sys_enter_delete_module :: "bool \<Rightarrow> kmaps \<Rightarrow> task \<Rightarrow> string \<Rightarrow> probe_out" where
  "sys_enter_delete_module enforce m t name_user =
     (let cgroup_id = t_cgroup_id t
      in if should_skip m cgroup_id then dropped
         else let e = (fill_common t zero_event)\<lparr>raw_syscall_type := 13, raw_filename := name_user\<rparr>;
                  (ret, e, sigs) = red_line_kill enforce m t cgroup_id e
              in perf_submit e sigs)"

definition sys_enter_setns :: "bool \<Rightarrow> kmaps \<Rightarrow> task \<Rightarrow> probe_out" where
  "sys_enter_setns enforce m t =
     (let cgroup_id = t_cgroup_id t
      in if should_skip m cgroup_id then dropped
         else let e = (fill_common t zero_event)\<lparr>raw_syscall_type := 4\<rparr>;
                  (ret, e, sigs) = red_line_kill enforce m t cgroup_id e
              in perf_submit e sigs)"

text \<open>All fifteen, dispatched on the system call; \<open>connect\<close> also reads the address family.\<close>

datatype syscall =
    Execve | Openat | Chroot | Mount | Setns | MoveMount | OpenTree | Fsmount | PivotRoot
  | Ptrace | Connect | InitModule | FinitModule | DeleteModule | Openat2

fun run_probe :: "syscall \<Rightarrow> bool \<Rightarrow> kmaps \<Rightarrow> task \<Rightarrow> u16 \<Rightarrow> string \<Rightarrow> probe_out" where
  "run_probe Execve enforce m t fam arg = sys_enter_execve m t arg"
| "run_probe Openat enforce m t fam arg = sys_enter_openat m t arg"
| "run_probe Chroot enforce m t fam arg = sys_enter_chroot enforce m t arg"
| "run_probe Mount enforce m t fam arg = sys_enter_mount enforce m t arg"
| "run_probe Setns enforce m t fam arg = sys_enter_setns enforce m t"
| "run_probe MoveMount enforce m t fam arg = sys_enter_move_mount enforce m t arg"
| "run_probe OpenTree enforce m t fam arg = sys_enter_open_tree m t arg"
| "run_probe Fsmount enforce m t fam arg = sys_enter_fsmount enforce m t"
| "run_probe PivotRoot enforce m t fam arg = sys_enter_pivot_root enforce m t arg"
| "run_probe Ptrace enforce m t fam arg = sys_enter_ptrace enforce m t"
| "run_probe Connect enforce m t fam arg = sys_enter_connect m t fam arg"
| "run_probe InitModule enforce m t fam arg = sys_enter_init_module enforce m t"
| "run_probe FinitModule enforce m t fam arg = sys_enter_finit_module enforce m t arg"
| "run_probe DeleteModule enforce m t fam arg = sys_enter_delete_module enforce m t arg"
| "run_probe Openat2 enforce m t fam arg = sys_enter_openat2 m t arg"

lemmas probe_defs = sys_enter_execve_def sys_enter_openat_def sys_enter_chroot_def
  sys_enter_mount_def sys_enter_setns_def sys_enter_move_mount_def sys_enter_open_tree_def
  sys_enter_fsmount_def sys_enter_pivot_root_def sys_enter_ptrace_def sys_enter_connect_def
  sys_enter_init_module_def sys_enter_finit_module_def sys_enter_delete_module_def
  sys_enter_openat2_def

section \<open>What the program promises\<close>

text \<open>
  The specification of the response: which system calls are only observed, which are answered
  from an armed cgroup, which are red lines; and when an event is delivered.
\<close>

datatype tier = Observe | WhenArmed | RedLine

fun response :: "syscall \<Rightarrow> tier" where
  "response Chroot = WhenArmed"
| "response Mount = WhenArmed"
| "response MoveMount = WhenArmed"
| "response Fsmount = WhenArmed"
| "response Ptrace = WhenArmed"
| "response Setns = RedLine"
| "response PivotRoot = RedLine"
| "response InitModule = RedLine"
| "response FinitModule = RedLine"
| "response DeleteModule = RedLine"
| "response _ = Observe"

fun type_code :: "syscall \<Rightarrow> u8" where
  "type_code Execve = 0"
| "type_code Openat = 1"
| "type_code Openat2 = 1"
| "type_code Chroot = 2"
| "type_code Mount = 3"
| "type_code Setns = 4"
| "type_code MoveMount = 5"
| "type_code OpenTree = 6"
| "type_code Fsmount = 7"
| "type_code PivotRoot = 8"
| "type_code Ptrace = 9"
| "type_code Connect = 10"
| "type_code InitModule = 11"
| "type_code FinitModule = 12"
| "type_code DeleteModule = 13"

definition copies_argument :: "syscall \<Rightarrow> bool" where
  "copies_argument sc = (sc \<notin> {Fsmount, Ptrace, InitModule, Setns})"

definition delivered :: "syscall \<Rightarrow> kmaps \<Rightarrow> task \<Rightarrow> u16 \<Rightarrow> bool" where
  "delivered sc m t fam =
     (\<not> should_skip m (t_cgroup_id t) \<and> (sc = Connect \<longrightarrow> fam = AF_UNIX))"

definition response_due :: "syscall \<Rightarrow> kmaps \<Rightarrow> task \<Rightarrow> bool" where
  "response_due sc m t =
     (case response sc of
        Observe \<Rightarrow> False
      | WhenArmed \<Rightarrow> armed_cgroups m (t_cgroup_id t) = Some ARMED_KILL
      | RedLine \<Rightarrow> True)"

definition kernel_kills :: "syscall \<Rightarrow> bool \<Rightarrow> kmaps \<Rightarrow> task \<Rightarrow> bool" where
  "kernel_kills sc enforce m t =
     (enforce \<and> response_due sc m t \<and> \<not> is_container_runtime (t_comm t) \<and>
      kill_allowed m (t_cgroup_id t))"

definition probe_event :: "syscall \<Rightarrow> bool \<Rightarrow> kmaps \<Rightarrow> task \<Rightarrow> string \<Rightarrow> event_t" where
  "probe_event sc enforce m t arg =
     \<lparr>raw_ktime = t_ktime t, raw_pid = ucast (drop_bit 32 (t_pid_tgid t)), raw_ppid = t_ppid t,
      raw_cgroup_id = t_cgroup_id t, raw_comm = t_comm t,
      raw_filename = (if copies_argument sc then arg else replicate 256 (CHR 0x00)),
      raw_syscall_type = type_code sc,
      raw_killed_in_kernel = (if kernel_kills sc enforce m t then 1 else 0)\<rparr>"

lemma run_probe_spec:
  "run_probe sc enforce m t fam arg =
     (if delivered sc m t fam
      then perf_submit (probe_event sc enforce m t arg) (if kernel_kills sc enforce m t then [9] else [])
      else dropped)"
  by (cases sc)
    (simp_all add: probe_defs delivered_def probe_event_def kernel_kills_def response_due_def
      copies_argument_def fill_common_def zero_event_def red_line_kill_def maybe_kill_def
      Let_def split_beta)

lemma prefix_bytes:
  "list_all (\<lambda>c. c \<noteq> CHR 0x00) p \<Longrightarrow> prefix p s \<longleftrightarrow> (\<forall>i < length p. byte_at s i = p ! i)"
proof (induction p arbitrary: s)
  case (Cons x p)
  then show ?case
    by (cases s) (auto simp: byte_at_def All_less_Suc2)
qed simp

lemma is_container_runtime_iff:
  "is_container_runtime comm \<longleftrightarrow>
     prefix ''runc'' comm \<or> prefix ''containerd'' comm \<or>
     (prefix ''crun'' comm \<and> byte_at comm 4 = CHR 0x00) \<or> prefix ''kubelet'' comm"
  by (simp add: prefix_bytes is_container_runtime_def numeral_eq_Suc All_less_Suc2)

section \<open>Properties\<close>

text \<open>C8. The probes send SIGKILL exactly when the program is built to enforce, the event is
  delivered, the process is not a container runtime, its cgroup is not classified warn-only, and
  the call is a red line or comes from an armed cgroup and is one of the calls arming covers; and
  the submitted event says so.\<close>
theorem sigkill_exactly_when:
  "(signals (run_probe sc enforce m t fam arg) = [9] \<longleftrightarrow>
      enforce \<and> delivered sc m t fam \<and> \<not> is_container_runtime (t_comm t) \<and>
      cgroup_class m (t_cgroup_id t) \<noteq> Some CLASS_WARN_ONLY \<and>
      (response sc = RedLine \<or>
       response sc = WhenArmed \<and> armed_cgroups m (t_cgroup_id t) = Some ARMED_KILL)) \<and>
   (signals (run_probe sc enforce m t fam arg) \<noteq> [9] \<longrightarrow>
      signals (run_probe sc enforce m t fam arg) = []) \<and>
   (case submitted (run_probe sc enforce m t fam arg) of
      None \<Rightarrow> signals (run_probe sc enforce m t fam arg) = []
    | Some e \<Rightarrow> (raw_killed_in_kernel e = 1) = (signals (run_probe sc enforce m t fam arg) = [9]))"
  by (cases "response sc")
    (auto simp: run_probe_spec perf_submit_def dropped_def probe_event_def kernel_kills_def
      response_due_def kill_allowed_def split: option.splits)

text \<open>Witness of C8: a \<open>setns\<close> by \<open>nsenter\<close> from an unclassified cgroup is killed, the same call
  by \<open>runc\<close> is not.\<close>
theorem sigkill_exactly_when_witness:
  "signals (run_probe Setns True \<lparr>armed_cgroups = Map.empty, cgroup_class = Map.empty\<rparr>
     \<lparr>t_ktime = 1, t_pid_tgid = 0, t_cgroup_id = 5, t_comm = ''nsenter'', t_ppid = 1\<rparr> 0 []) = [9] \<and>
   signals (run_probe Setns True \<lparr>armed_cgroups = Map.empty, cgroup_class = Map.empty\<rparr>
     \<lparr>t_ktime = 1, t_pid_tgid = 0, t_cgroup_id = 5, t_comm = ''runc:[2:INIT]'', t_ppid = 1\<rparr> 0 []) \<noteq> [9]"
  by (simp add: sigkill_exactly_when [THEN conjunct1] delivered_def should_skip_def
      is_container_runtime_iff del: run_probe.simps)

text \<open>The filter fails open: an unknown cgroup is always submitted.\<close>
lemma filter_fails_open:
  assumes "sc \<noteq> Connect"
  shows "submitted (run_probe sc enforce m t fam arg) = None \<longleftrightarrow>
     cgroup_class m (t_cgroup_id t) \<in> {Some CLASS_HOST, Some CLASS_EXCLUDED}"
  using assms
  by (auto simp: run_probe_spec perf_submit_def dropped_def delivered_def should_skip_def
      split: option.splits)

end
