(* ===== verification/BpfMap.thy ===== *)
theory BpfMap
  imports Kernel
begin

text \<open>
  The bcc table objects through which user space writes the two kernel maps. bcc is not part of the
  repository; what the code relies on is the documented contract of an assignment
  \<open>table[key] = value\<close>: it either raises and leaves the table alone, or makes the key map to the
  value. Which writes raise is a parameter \<open>accepts\<close>: a bcc \<open>BPF_HASH\<close> has a fixed capacity and a
  full one refuses a new key (\<open>bounded_hash\<close> is that instance).
\<close>

type_synonym table = "u64 \<rightharpoonup> u8"

type_synonym accepts = "table \<Rightarrow> u64 \<Rightarrow> bool"

definition table_put :: "accepts \<Rightarrow> table \<Rightarrow> u64 \<Rightarrow> u8 \<Rightarrow> table option" where
  "table_put accepts t k v = (if accepts t k then Some (t(k \<mapsto> v)) else None)"

text \<open>\<open>ct.c_uint64(i)\<close> wraps a Python integer.\<close>

definition c_uint64 :: "int \<Rightarrow> u64" where
  "c_uint64 i = word_of_int i"

definition always_accepts :: accepts where
  "always_accepts t k = True"

text \<open>A map with room for every write.\<close>

definition accepts_all :: "accepts \<Rightarrow> bool" where
  "accepts_all accepts = (\<forall>t c. accepts t c)"

definition bounded_hash :: "nat \<Rightarrow> accepts" where
  "bounded_hash capacity t k = (k \<in> dom t \<or> card (dom t) < capacity)"

locale bpf_table =
  fixes put :: "'t \<Rightarrow> u64 \<Rightarrow> u8 \<Rightarrow> 't option"
    and get :: "'t \<Rightarrow> u64 \<Rightarrow> u8 option"
  assumes put_get: "put t k v = Some t' \<Longrightarrow> get t' = (get t)(k \<mapsto> v)"
begin

lemma put_other: "put t k v = Some t' \<Longrightarrow> k' \<noteq> k \<Longrightarrow> get t' k' = get t k'"
  by (simp add: put_get)

lemma put_keeps_dom: "put t k v = Some t' \<Longrightarrow> dom (get t) \<subseteq> dom (get t')"
  by (auto simp: put_get)

lemma put_source: "put t k v = Some t' \<Longrightarrow> get t' k' = Some w \<Longrightarrow> k' = k \<and> w = v \<or> get t k' = Some w"
  by (auto simp: put_get split: if_splits)

end

interpretation hash: bpf_table "table_put accepts" "\<lambda>t. t" for accepts
  by unfold_locales (auto simp: table_put_def split: if_splits)

lemma bounded_hash_capacity:
  assumes "table_put (bounded_hash capacity) t k v = Some t'"
    and "finite (dom t)" and "card (dom t) \<le> capacity"
  shows "finite (dom t') \<and> card (dom t') \<le> capacity"
  using assms by (auto simp: table_put_def bounded_hash_def insert_absorb domI card_insert_if split: if_splits)

end
