(* ===== verification/CgroupSync.thy ===== *)
theory CgroupSync
  imports BpfMap Resolver Policy
begin

text \<open>
  \<open>core/cgroup_sync.py\<close>: the background scan that classifies the node's cgroups and writes the
  classes into the kernel's map. The map and the resolver are objects shared with the rest of the
  agent, so the operations take and return them beside the object's own state; the file system,
  the API server and the map's willingness to take a write are what one scan meets, a \<open>scan_env\<close>.
\<close>

section \<open>State\<close>

type_synonym class_counts = "(u8 \<times> int) list"

record sync_stats =
  ss_pod :: int
  ss_host :: int
  ss_excluded :: int
  ss_warn_only :: int
  ss_scans :: int
  ss_last_scan_ms :: rat

record cgroup_sync =
  sy_interval :: rat
  sy_exclude :: "string list"
  sy_warn_only :: "string list"
  sy_stop :: bool
  sy_thread :: bool
  sy_stats :: sync_stats

definition new_sync :: "rat \<Rightarrow> yval \<Rightarrow> yval \<Rightarrow> cgroup_sync result" where
  "new_sync interval_sec exclude warn_only =
     and_then (namespace_set exclude) (\<lambda>ex.
     and_then (namespace_set warn_only) (\<lambda>wo.
       Inr \<lparr>sy_interval = interval_sec, sy_exclude = ex, sy_warn_only = wo, sy_stop = False,
            sy_thread = False,
            sy_stats = \<lparr>ss_pod = 0, ss_host = 0, ss_excluded = 0, ss_warn_only = 0, ss_scans = 0,
                        ss_last_scan_ms = 0\<rparr>\<rparr>))"

section \<open>One pass over cgroupfs\<close>

definition namespace_class :: "cgroup_sync \<Rightarrow> string \<Rightarrow> u8" where
  "namespace_class s namespace =
     (if namespace \<in> set (sy_exclude s) then CLASS_EXCLUDED
      else if namespace \<in> set (sy_warn_only s) then CLASS_WARN_ONLY
      else CLASS_POD)"

definition pod_class ::
    "pod_api option \<Rightarrow> cgroup_sync \<Rightarrow> string \<Rightarrow> resolver option \<Rightarrow> u8 result \<times> resolver option" where
  "pod_class core_v1 s cgroup_path res =
     (case res of
        None \<Rightarrow> (Inr CLASS_POD, None)
      | Some r \<Rightarrow>
          (case extract_pod_uid cgroup_path of
             None \<Rightarrow> (Inr CLASS_POD, Some r)
           | Some uid \<Rightarrow>
               (case lookup_pod core_v1 uid r of
                  (Inl e, r) \<Rightarrow> (Inl e, Some r)
                | (Inr None, r) \<Rightarrow> (Inr CLASS_POD, Some r)
                | (Inr (Some (namespace, name)), r) \<Rightarrow> (Inr (namespace_class s namespace), Some r))))"

definition classify :: "accepts \<Rightarrow> cgroupfs \<Rightarrow> string \<Rightarrow> u8 \<Rightarrow> table \<Rightarrow> bool \<times> table" where
  "classify accepts fs dirpath cls m =
     (case fs_ino fs dirpath of
        None \<Rightarrow> (False, m)
      | Some cgroup_id \<Rightarrow>
          (case table_put accepts m (c_uint64 cgroup_id) cls of
             Some m' \<Rightarrow> (True, m')
           | None \<Rightarrow> (False, m)))"

definition bump :: "class_counts \<Rightarrow> u8 \<Rightarrow> class_counts" where
  "bump counts cls = dict_set counts cls (dict_get counts cls 0 + 1)"

fun scan_pods ::
    "accepts \<Rightarrow> pod_api option \<Rightarrow> cgroupfs \<Rightarrow> cgroup_sync \<Rightarrow> string list \<Rightarrow> class_counts \<Rightarrow> table \<Rightarrow>
     resolver option \<Rightarrow> class_counts result \<times> table \<times> resolver option" where
  "scan_pods accepts core_v1 fs s [] counts m res = (Inr counts, m, res)"
| "scan_pods accepts core_v1 fs s (dirpath # dirs) counts m res =
     (case pod_class core_v1 s dirpath res of
        (Inl e, res) \<Rightarrow> (Inl e, m, res)
      | (Inr cls, res) \<Rightarrow>
          (case classify accepts fs dirpath cls m of
             (True, m) \<Rightarrow> scan_pods accepts core_v1 fs s dirs (bump counts cls) m res
           | (False, m) \<Rightarrow> scan_pods accepts core_v1 fs s dirs counts m res))"

fun scan_host :: "accepts \<Rightarrow> cgroupfs \<Rightarrow> string list \<Rightarrow> class_counts \<Rightarrow> table \<Rightarrow> class_counts \<times> table" where
  "scan_host accepts fs [] counts m = (counts, m)"
| "scan_host accepts fs (dirpath # dirs) counts m =
     (case classify accepts fs dirpath CLASS_HOST m of
        (True, m) \<Rightarrow> scan_host accepts fs dirs (bump counts CLASS_HOST) m
      | (False, m) \<Rightarrow> scan_host accepts fs dirs counts m)"

record scan_env =
  se_accepts :: accepts
  se_api :: "pod_api option"
  se_fs :: cgroupfs
  se_elapsed :: rat

definition zero_counts :: class_counts where
  "zero_counts = [(CLASS_POD, 0), (CLASS_HOST, 0), (CLASS_EXCLUDED, 0), (CLASS_WARN_ONLY, 0)]"

definition scan_once ::
    "scan_env \<Rightarrow> cgroup_sync \<Rightarrow> table \<Rightarrow> resolver option \<Rightarrow>
     class_counts result \<times> cgroup_sync \<times> table \<times> resolver option" where
  "scan_once env s m res =
     (case scan_pods (se_accepts env) (se_api env) (se_fs env) s (pod_paths (se_fs env)) zero_counts m res of
        (Inl e, m, res) \<Rightarrow> (Inl e, s, m, res)
      | (Inr counts, m, res) \<Rightarrow>
          (let (counts, m) = scan_host (se_accepts env) (se_fs env) (host_paths (se_fs env)) counts m
           in (Inr counts,
               s\<lparr>sy_stats :=
                   \<lparr>ss_pod = dict_get counts CLASS_POD 0, ss_host = dict_get counts CLASS_HOST 0,
                    ss_excluded = dict_get counts CLASS_EXCLUDED 0,
                    ss_warn_only = dict_get counts CLASS_WARN_ONLY 0,
                    ss_scans = ss_scans (sy_stats s) + 1,
                    ss_last_scan_ms = se_elapsed env * 1000\<rparr>\<rparr>,
               m, res)))"

section \<open>The background thread\<close>

text \<open>
  The loop turns until \<open>stop\<close> is called; a run of it is the list of what its scans meet. An
  exception ends the scan and is swallowed, first scan included.
\<close>

fun sync_loop ::
    "scan_env list \<Rightarrow> cgroup_sync \<Rightarrow> table \<Rightarrow> resolver option \<Rightarrow> cgroup_sync \<times> table \<times> resolver option" where
  "sync_loop [] s m res = (s, m, res)"
| "sync_loop (env # envs) s m res =
     (let (result, s, m, res) = scan_once env s m res in sync_loop envs s m res)"

definition sync_start ::
    "bool \<Rightarrow> scan_env \<Rightarrow> cgroup_sync \<Rightarrow> table \<Rightarrow> resolver option \<Rightarrow>
     unit result \<times> cgroup_sync \<times> table \<times> resolver option" where
  "sync_start blocking_first_scan env s m res =
     (if blocking_first_scan then
        (case scan_once env s m res of
           (Inl e, s, m, res) \<Rightarrow> (Inl e, s, m, res)
         | (Inr counts, s, m, res) \<Rightarrow> (Inr (), s\<lparr>sy_thread := True\<rparr>, m, res))
      else (Inr (), s\<lparr>sy_thread := True\<rparr>, m, res))"

text \<open>\<open>SyscallTracer.start_cgroup_sync\<close>: the classifier over the program's table, started.\<close>

definition start_cgroup_sync ::
    "rat \<Rightarrow> yval \<Rightarrow> yval \<Rightarrow> bool \<Rightarrow> scan_env \<Rightarrow> table \<Rightarrow> resolver option \<Rightarrow>
     (cgroup_sync \<times> table \<times> resolver option) result" where
  "start_cgroup_sync interval_sec exclude warn_only blocking_first_scan env m res =
     and_then (new_sync interval_sec exclude warn_only) (\<lambda>s.
       case sync_start blocking_first_scan env s m res of
         (Inl e, s, m, res) \<Rightarrow> Inl e
       | (Inr _, s, m, res) \<Rightarrow> Inr (s, m, res))"

definition sync_stop :: "cgroup_sync \<Rightarrow> cgroup_sync" where
  "sync_stop s = s\<lparr>sy_stop := True\<rparr>"

definition sync_summary :: "cgroup_sync \<Rightarrow> string" where
  "sync_summary s =
     (let st = sy_stats s in
      ''scans='' @ show_int (ss_scans st) @ '' pod='' @ show_int (ss_pod st) @
      '' host='' @ show_int (ss_host st) @ '' warn_only='' @ show_int (ss_warn_only st) @
      '' excluded='' @ show_int (ss_excluded st) @
      '' last='' @ fmt_fixed 0 (ss_last_scan_ms st) @ ''ms'')"

section \<open>What the resolver knows\<close>

text \<open>
  \<open>P\<close> stands for the pods that ever ran on the node, \<open>api_from P\<close> for an API server that only
  lists such pods, \<open>cache_from P\<close> for a resolver whose cache holds nothing else. UIDs are unique.
\<close>

definition api_from :: "pod set \<Rightarrow> pod_api option \<Rightarrow> bool" where
  "api_from P core_v1 =
     (case core_v1 of None \<Rightarrow> True | Some api \<Rightarrow> \<forall>n ps. api n = Inr ps \<longrightarrow> set ps \<subseteq> P)"

definition cache_from :: "pod set \<Rightarrow> resolver \<Rightarrow> bool" where
  "cache_from P r =
     (\<forall>(uid, ns, name) \<in> set (pod_cache r).
        \<exists>p \<in> P. pod_uid p = uid \<and> pod_namespace p = ns \<and> pod_name p = name)"

definition uid_unique :: "pod set \<Rightarrow> bool" where
  "uid_unique P = (\<forall>p \<in> P. \<forall>q \<in> P. pod_uid p = pod_uid q \<longrightarrow> p = q)"

lemma cache_from_new: "cache_from P new_resolver"
  by (simp add: cache_from_def new_resolver_def)

lemma cache_from_fill:
  "cache_from P r \<Longrightarrow> set ps \<subseteq> P \<Longrightarrow> cache_from P (snd (fill_caches ps uid res r))"
proof (induction ps uid res r rule: fill_caches.induct)
  case (2 p ps uid res r)
  have "cache_from P (r\<lparr>pod_cache := dict_set (pod_cache r) (pod_uid p) (pod_namespace p, pod_name p),
      owner_cache := dict_set (owner_cache r) (pod_uid p) (extract_owner p)\<rparr>)"
    using "2.prems" by (fastforce simp: cache_from_def dest: in_set_dict_set)
  with "2.IH" "2.prems" show ?case by simp
qed simp

lemma cache_from_lookup:
  assumes "cache_from P r" "api_from P core_v1" "lookup_pod core_v1 uid r = (v, r')"
  shows "cache_from P r'"
proof -
  have calls: "cache_from P (r\<lparr>api_calls := n\<rparr>)" for n
    using assms(1) by (simp add: cache_from_def)
  from assms(2,3) show ?thesis
    using cache_from_fill [OF calls, of _ uid None] assms(1) calls
    by (auto simp: lookup_pod_def Let_def api_from_def split_beta split: option.splits sum.splits)
qed

lemma lookup_from:
  assumes "cache_from P r" "api_from P core_v1" "lookup_pod core_v1 uid r = (Inr (Some (ns, name)), r')"
  shows "\<exists>p \<in> P. pod_uid p = uid \<and> pod_namespace p = ns \<and> pod_name p = name"
proof -
  have "map_of (pod_cache r') uid = Some (ns, name)"
    using assms(3) by (rule pod_lookup.stored)
  then have "(uid, ns, name) \<in> set (pod_cache r')" by (rule map_of_SomeD)
  with cache_from_lookup [OF assms] show ?thesis by (auto simp: cache_from_def)
qed

lemma fill_caches_listed:
  "p \<in> set ps \<or> res \<noteq> None \<Longrightarrow> fst (fill_caches ps (pod_uid p) res r) \<noteq> None"
  by (induction ps "pod_uid p" res r rule: fill_caches.induct) auto

text \<open>A pod the API server lists is found, under its own namespace.\<close>

lemma lookup_listed:
  assumes "cache_from P r" "api_from P (Some api)" "uid_unique P" "p \<in> P"
    and listed: "\<forall>n ps. api n = Inr ps \<longrightarrow> p \<in> set ps"
    and lookup: "lookup_pod (Some api) (pod_uid p) r = (Inr v, r')"
  shows "v = Some (pod_namespace p, pod_name p)"
proof -
  have "v \<noteq> None"
  proof (cases "map_of (pod_cache r) (pod_uid p)")
    case None
    with lookup listed fill_caches_listed [of p _ None] show ?thesis
      by (auto simp: lookup_pod_def Let_def split_beta split: sum.splits)
  next
    case (Some w)
    from pod_lookup.hit [OF this] lookup have "v = Some w" by simp
    then show ?thesis by simp
  qed
  then obtain ns name where v: "v = Some (ns, name)" by auto
  with lookup_from [OF assms(1,2)] lookup obtain q where
    "q \<in> P" "pod_uid q = pod_uid p" "pod_namespace q = ns" "pod_name q = name" by blast
  with assms(3,4) v show ?thesis by (auto simp: uid_unique_def)
qed

section \<open>Every entry of the map is explained\<close>

definition res_from :: "pod set \<Rightarrow> resolver option \<Rightarrow> bool" where
  "res_from P res = (case res of None \<Rightarrow> True | Some r \<Rightarrow> cache_from P r)"

lemma pod_class_sound:
  assumes "pod_class core_v1 s path res = (v, res')" "res_from P res" "api_from P core_v1"
  shows "res_from P res' \<and>
     (\<forall>cls. v = Inr cls \<longrightarrow> cls = CLASS_POD \<or>
        (\<exists>p \<in> P. extract_pod_uid path = Some (pod_uid p) \<and> cls = namespace_class s (pod_namespace p)))"
proof (cases res)
  case (Some r)
  show ?thesis
  proof (cases "extract_pod_uid path")
    case (Some uid)
    obtain w r' where l: "lookup_pod core_v1 uid r = (w, r')" by fastforce
    have "cache_from P r'" using cache_from_lookup [OF _ assms(3) l] assms(2) \<open>res = Some r\<close>
      by (simp add: res_from_def)
    with assms l Some \<open>res = Some r\<close> show ?thesis
      using lookup_from [of P r core_v1 uid _ _ r']
      by (fastforce simp: pod_class_def res_from_def split: sum.splits option.splits)
  qed (use assms Some in \<open>auto simp: pod_class_def res_from_def\<close>)
qed (use assms in \<open>auto simp: pod_class_def res_from_def\<close>)

text \<open>Where a write came from: a path of the walk, its inode, its class.\<close>

definition explains :: "pod set \<Rightarrow> cgroup_sync \<Rightarrow> cgroupfs \<Rightarrow> u64 \<Rightarrow> u8 \<Rightarrow> bool" where
  "explains P s fs c cls =
     (\<exists>path i. fs_ino fs path = Some i \<and> c_uint64 i = c \<and>
        (path \<in> set (host_paths fs) \<and> cls = CLASS_HOST \<or>
         path \<in> set (pod_paths fs) \<and> (cls = CLASS_POD \<or>
           (\<exists>p \<in> P. extract_pod_uid path = Some (pod_uid p) \<and> cls = namespace_class s (pod_namespace p)))))"

lemma classify_cases:
  assumes "classify accepts fs path cls m = (b, m')"
  obtains "m' = m" "\<not> b"
  | i where "fs_ino fs path = Some i" "table_put accepts m (c_uint64 i) cls = Some m'" "b"
  using assms by (auto simp: classify_def split: option.splits)

lemma classify_entry:
  assumes "classify accepts fs path cls m = (b, m')" "m' c = Some w"
  shows "m c = Some w \<or> (w = cls \<and> (\<exists>i. fs_ino fs path = Some i \<and> c_uint64 i = c))"
  using assms by (elim classify_cases) (auto dest: hash.put_source)

lemma classify_dom: "classify accepts fs path cls m = (b, m') \<Longrightarrow> dom m \<subseteq> dom m'"
  by (elim classify_cases) (auto dest: hash.put_keeps_dom)

definition entries :: "(u64 \<Rightarrow> u8 \<Rightarrow> bool) \<Rightarrow> table \<Rightarrow> bool" where
  "entries E m = (\<forall>c cls. m c = Some cls \<longrightarrow> E c cls)"

lemma classify_entries:
  assumes "classify accepts fs path cls m = (b, m')" "entries E m"
    and "\<And>i. fs_ino fs path = Some i \<Longrightarrow> E (c_uint64 i) cls"
  shows "entries E m'"
  unfolding entries_def using classify_entry [OF assms(1)] assms(2,3) by (metis entries_def)

lemma scan_pods_sound:
  assumes "scan_pods accepts core_v1 fs s dirs counts m res = (v, m', res')"
    and "res_from P res" "api_from P core_v1" "entries E m" "set dirs \<subseteq> set (pod_paths fs)"
    and "\<forall>c cls. explains P s fs c cls \<longrightarrow> E c cls"
  shows "res_from P res' \<and> entries E m'"
  using assms
proof (induction accepts core_v1 fs s dirs counts m res rule: scan_pods.induct)
  case (2 accepts core_v1 fs s dirpath dirs counts m res)
  obtain w res1 where p: "pod_class core_v1 s dirpath res = (w, res1)" by fastforce
  note sound = pod_class_sound [OF p "2.prems"(2,3)]
  show ?case
  proof (cases w)
    case (Inl e)
    with "2.prems" p sound show ?thesis by simp
  next
    case (Inr cls)
    obtain b m1 where c: "classify accepts fs dirpath cls m = (b, m1)" by fastforce
    have "E (c_uint64 i) cls" if "fs_ino fs dirpath = Some i" for i
    proof -
      have "explains P s fs (c_uint64 i) cls"
        unfolding explains_def using that sound Inr "2.prems"(5) by auto
      with "2.prems"(6) show ?thesis by blast
    qed
    then have e: "entries E m1" using classify_entries [OF c "2.prems"(4)] by blast
    show ?thesis
    proof (cases b)
      case True
      with "2.IH"(1) [OF p [symmetric] _ c [symmetric]] "2.prems" p c Inr sound e show ?thesis by simp
    next
      case False
      with "2.IH"(2) [OF p [symmetric] _ c [symmetric]] "2.prems" p c Inr sound e show ?thesis by simp
    qed
  qed
qed simp

lemma scan_host_sound:
  assumes "scan_host accepts fs dirs counts m = (v, m')"
    and "entries E m" "set dirs \<subseteq> set (host_paths fs)"
    and "\<forall>c cls. explains P s fs c cls \<longrightarrow> E c cls"
  shows "entries E m'"
  using assms
proof (induction accepts fs dirs counts m rule: scan_host.induct)
  case (2 accepts fs dirpath dirs counts m)
  obtain b m1 where c: "classify accepts fs dirpath CLASS_HOST m = (b, m1)" by fastforce
  have "E (c_uint64 i) CLASS_HOST" if "fs_ino fs dirpath = Some i" for i
    using that "2.prems"(3,4) by (auto simp: explains_def)
  then have "entries E m1" using classify_entries [OF c "2.prems"(2)] by blast
  with "2.IH" "2.prems" c show ?case by (cases b) auto
qed simp

lemma scan_once_sound:
  assumes "scan_once env s m res = (v, s', m', res')"
    and "res_from P res" "api_from P (se_api env)" "entries E m"
    and "\<forall>c cls. explains P s (se_fs env) c cls \<longrightarrow> E c cls"
  shows "res_from P res' \<and> entries E m'"
proof -
  obtain w m1 res1 where p: "scan_pods (se_accepts env) (se_api env) (se_fs env) s
      (pod_paths (se_fs env)) zero_counts m res = (w, m1, res1)"
    by (metis prod.exhaust)
  have s1: "res_from P res1 \<and> entries E m1"
    by (rule scan_pods_sound [OF p assms(2-4) _ assms(5)]) simp
  show ?thesis
  proof (cases w)
    case (Inr counts)
    obtain counts' m2 where "scan_host (se_accepts env) (se_fs env) (host_paths (se_fs env)) counts m1
        = (counts', m2)" by fastforce
    with scan_host_sound [OF this _ _ assms(5)] assms(1) p Inr s1 show ?thesis
      by (auto simp: scan_once_def)
  qed (use assms(1) p s1 in \<open>auto simp: scan_once_def\<close>)
qed

text \<open>A scan changes statistics only; the configuration is what it was.\<close>

lemma scan_once_config:
  assumes "scan_once env s m res = (v, s', m', res')"
  shows "sy_exclude s' = sy_exclude s \<and> sy_warn_only s' = sy_warn_only s \<and> sy_interval s' = sy_interval s"
  using assms by (auto simp: scan_once_def Let_def split: prod.splits sum.splits)

lemma explains_config:
  "sy_exclude s' = sy_exclude s \<Longrightarrow> sy_warn_only s' = sy_warn_only s \<Longrightarrow> explains P s' = explains P s"
  by (simp add: explains_def namespace_class_def fun_eq_iff)

lemma sync_loop_sound:
  assumes "sync_loop envs s m res = (s', m', res')"
    and "res_from P res" "\<forall>env \<in> set envs. api_from P (se_api env)" "entries E m"
    and "\<forall>env \<in> set envs. \<forall>c cls. explains P s (se_fs env) c cls \<longrightarrow> E c cls"
  shows "entries E m'"
  using assms
proof (induction envs s m res rule: sync_loop.induct)
  case (2 env envs s m res)
  obtain v s1 m1 res1 where e: "scan_once env s m res = (v, s1, m1, res1)"
    by (metis prod.exhaust)
  have "res_from P res1 \<and> entries E m1"
    using scan_once_sound [OF e "2.prems"(2)] "2.prems"(3-5) by simp
  moreover have "explains P s1 = explains P s"
    using scan_once_config [OF e] by (intro explains_config) auto
  ultimately show ?case using "2.IH" [OF e [symmetric] refl refl] "2.prems" e by simp
qed simp

section \<open>What a successful scan writes\<close>

lemma classify_here:
  "fs_ino fs path = Some i \<Longrightarrow> accepts m (c_uint64 i) \<Longrightarrow>
     classify accepts fs path cls m = (True, m(c_uint64 i \<mapsto> cls))"
  by (simp add: classify_def table_put_def)

lemma classify_elsewhere:
  assumes "classify accepts fs path cls m = (b, m')" "\<forall>j. fs_ino fs path = Some j \<longrightarrow> c_uint64 j \<noteq> c"
  shows "m' c = m c"
  using assms by (elim classify_cases) (auto dest: hash.put_get)

text \<open>A pod the API server lists, at a path whose inode no other walked path has.\<close>

definition listed_pod :: "pod set \<Rightarrow> pod_api \<Rightarrow> pod \<Rightarrow> bool" where
  "listed_pod P api p =
     (uid_unique P \<and> p \<in> P \<and> api_from P (Some api) \<and> (\<forall>n ps. api n = Inr ps \<longrightarrow> p \<in> set ps))"

definition own_inode :: "cgroupfs \<Rightarrow> string \<Rightarrow> u64 \<Rightarrow> bool" where
  "own_inode fs path c =
     ((\<exists>i. fs_ino fs path = Some i \<and> c_uint64 i = c) \<and>
      (\<forall>q \<in> set (pod_paths fs) \<union> set (host_paths fs).
         \<forall>j. fs_ino fs q = Some j \<and> c_uint64 j = c \<longrightarrow> q = path))"

lemma pod_class_listed:
  assumes "listed_pod P api p" "cache_from P r" "extract_pod_uid path = Some (pod_uid p)"
    and "pod_class (Some api) s path (Some r) = (Inr cls, res')"
  shows "cls = namespace_class s (pod_namespace p)"
proof -
  obtain v r' where l: "lookup_pod (Some api) (pod_uid p) r = (v, r')" by fastforce
  with assms(3,4) obtain w where v: "v = Inr w"
    by (cases v) (auto simp: pod_class_def)
  have "w = Some (pod_namespace p, pod_name p)"
    using lookup_listed [of P r api p w r'] assms(1,2) l v by (auto simp: listed_pod_def)
  with assms(3,4) l v show ?thesis by (simp add: pod_class_def)
qed

lemma pod_class_resolver:
  "pod_class core_v1 s path (Some r) = (v, res') \<Longrightarrow> \<exists>r'. res' = Some r'"
  by (auto simp: pod_class_def split: option.splits prod.splits sum.splits)

lemma scan_pods_writes:
  assumes "scan_pods accepts core_v1 fs s dirs counts m res = (Inr counts', m', res')"
    and "core_v1 = Some api" "res = Some r" "cache_from P r" "listed_pod P api p" "extract_pod_uid path = Some (pod_uid p)"
    and "own_inode fs path c" "\<forall>t. accepts t c" "set dirs \<subseteq> set (pod_paths fs)"
    and "path \<in> set dirs \<or> m c = Some (namespace_class s (pod_namespace p))"
  shows "m' c = Some (namespace_class s (pod_namespace p))"
  using assms
proof (induction accepts core_v1 fs s dirs counts m res arbitrary: r rule: scan_pods.induct)
  case (2 accepts core_v1 fs s dirpath dirs counts m res)
  obtain w res1 where p: "pod_class core_v1 s dirpath res = (w, res1)" by fastforce
  with "2.prems"(1) obtain cls where w: "w = Inr cls" by (cases w) auto
  obtain b m1 where cl: "classify accepts fs dirpath cls m = (b, m1)" by fastforce
  obtain r1 where r1: "res1 = Some r1" using p "2.prems"(3) pod_class_resolver by blast
  have "res_from P res1"
    using pod_class_sound [OF p, of P] "2.prems"(2-5) by (simp add: res_from_def listed_pod_def)
  then have cf: "cache_from P r1" by (simp add: res_from_def r1)
  have next_ok: "path \<in> set dirs \<or> m1 c = Some (namespace_class s (pod_namespace p))"
  proof (cases "dirpath = path")
    case True
    obtain i where i: "fs_ino fs path = Some i" "c_uint64 i = c"
      using "2.prems"(7) by (auto simp: own_inode_def)
    have "cls = namespace_class s (pod_namespace p)"
      using pod_class_listed [OF "2.prems"(5) "2.prems"(4) "2.prems"(6)] p w True "2.prems"(2,3) by simp
    moreover have "m1 = m(c \<mapsto> cls)"
      using classify_here [OF i(1), of accepts m cls] "2.prems"(8) i(2) cl True by simp
    ultimately show ?thesis by simp
  next
    case False
    then have "\<forall>j. fs_ino fs dirpath = Some j \<longrightarrow> c_uint64 j \<noteq> c"
      using "2.prems"(7,9) by (auto simp: own_inode_def)
    with classify_elsewhere [OF cl] "2.prems"(10) False show ?thesis by auto
  qed
  have dirs: "set dirs \<subseteq> set (pod_paths fs)" using "2.prems"(9) by simp
  show ?case
  proof (cases b)
    case True
    then have "scan_pods accepts core_v1 fs s dirs (bump counts cls) m1 res1 = (Inr counts', m', res')"
      using "2.prems"(1) p w cl by simp
    moreover have "b = True" using True by simp
    ultimately show ?thesis
      using "2.IH"(1) [OF p [symmetric] w cl [symmetric] _ _ "2.prems"(2) r1 cf "2.prems"(5-8) dirs next_ok]
      by blast
  next
    case False
    then have "scan_pods accepts core_v1 fs s dirs counts m1 res1 = (Inr counts', m', res')"
      using "2.prems"(1) p w cl by simp
    moreover have "b = False" using False by simp
    ultimately show ?thesis
      using "2.IH"(2) [OF p [symmetric] w cl [symmetric] _ _ "2.prems"(2) r1 cf "2.prems"(5-8) dirs next_ok]
      by blast
  qed
qed simp

lemma scan_host_elsewhere:
  assumes "scan_host accepts fs dirs counts m = (v, m')"
    and "\<forall>q \<in> set dirs. \<forall>j. fs_ino fs q = Some j \<longrightarrow> c_uint64 j \<noteq> c"
  shows "m' c = m c"
  using assms
proof (induction accepts fs dirs counts m rule: scan_host.induct)
  case (2 accepts fs dirpath dirs counts m)
  obtain b m1 where c: "classify accepts fs dirpath CLASS_HOST m = (b, m1)" by fastforce
  with classify_elsewhere [OF this, of c] "2" show ?case by (cases b) auto
qed simp

text \<open>Pods and hosts live under different top-level directories, so a pod's path is no host path.\<close>

lemma scan_once_writes:
  assumes "scan_once env s m (Some r) = (Inr counts, s', m', res')"
    and "se_api env = Some api" "cache_from P r" "listed_pod P api p"
    and "path \<in> set (pod_paths (se_fs env))" "path \<notin> set (host_paths (se_fs env))"
    and "extract_pod_uid path = Some (pod_uid p)"
    and "own_inode (se_fs env) path c" "\<forall>t. se_accepts env t c"
  shows "m' c = Some (namespace_class s (pod_namespace p))"
proof -
  obtain w m1 res1 where p: "scan_pods (se_accepts env) (se_api env) (se_fs env) s
      (pod_paths (se_fs env)) zero_counts m (Some r) = (w, m1, res1)"
    by (metis prod.exhaust)
  with assms(1) obtain counts1 where w: "w = Inr counts1" by (cases w) (auto simp: scan_once_def)
  have m1: "m1 c = Some (namespace_class s (pod_namespace p))"
    using scan_pods_writes [OF p [unfolded w] assms(2) refl assms(3,4,7,8,9)] assms(5) by simp
  obtain counts2 m2 where h: "scan_host (se_accepts env) (se_fs env) (host_paths (se_fs env)) counts1 m1
      = (counts2, m2)" by fastforce
  have "m2 c = m1 c"
    using assms(6,8) by (intro scan_host_elsewhere [OF h]) (auto simp: own_inode_def)
  with m1 assms(1) p w h show ?thesis by (simp add: scan_once_def)
qed

section \<open>Counting\<close>

lemma sum_dict_set: "sum_list (map snd (dict_set d k v)) = sum_list (map snd d) - dict_get d k 0 + v"
  for d :: "('k \<times> int) list"
  by (induction d k v rule: dict_set.induct) (auto simp: dict_get_def)

lemma sum_bump: "sum_list (map snd (bump counts cls)) = sum_list (map snd counts) + 1"
  by (simp add: bump_def sum_dict_set)

definition alive :: "cgroupfs \<Rightarrow> string list \<Rightarrow> int" where
  "alive fs dirs = int (length (filter (\<lambda>d. fs_ino fs d \<noteq> None) dirs))"

lemma alive_simps [simp]:
  "alive fs [] = 0"
  "alive fs (d # dirs) = (if fs_ino fs d = None then 0 else 1) + alive fs dirs"
  "alive fs (xs @ ys) = alive fs xs + alive fs ys"
  by (simp_all add: alive_def)

lemma classify_alive:
  assumes "accepts_all accepts"
  shows "fst (classify accepts fs d cls m) = (fs_ino fs d \<noteq> None)"
  using assms by (simp add: classify_def table_put_def accepts_all_def split: option.split)

lemma scan_pods_count:
  assumes "scan_pods accepts core_v1 fs s dirs counts m res = (Inr counts', m', res')" "accepts_all accepts"
  shows "sum_list (map snd counts') = sum_list (map snd counts) + alive fs dirs"
  using assms
proof (induction accepts core_v1 fs s dirs counts m res rule: scan_pods.induct)
  case (2 accepts core_v1 fs s dirpath dirs counts m res)
  obtain w res1 where p: "pod_class core_v1 s dirpath res = (w, res1)" by fastforce
  with "2.prems"(1) obtain cls where w: "w = Inr cls" by (cases w) auto
  obtain b m1 where cl: "classify accepts fs dirpath cls m = (b, m1)" by fastforce
  have b: "b = (fs_ino fs dirpath \<noteq> None)"
    using classify_alive [OF "2.prems"(2), of fs dirpath cls m] cl by simp
  show ?case
  proof (cases b)
    case True
    with "2.IH"(1) [OF p [symmetric] w cl [symmetric]] "2.prems" p w cl b show ?thesis
      by (simp add: sum_bump)
  next
    case False
    with "2.IH"(2) [OF p [symmetric] w cl [symmetric]] "2.prems" p w cl b show ?thesis by simp
  qed
qed simp

lemma scan_host_count:
  assumes "scan_host accepts fs dirs counts m = (counts', m')" "accepts_all accepts"
  shows "sum_list (map snd counts') = sum_list (map snd counts) + alive fs dirs"
  using assms
proof (induction accepts fs dirs counts m rule: scan_host.induct)
  case (2 accepts fs dirpath dirs counts m)
  obtain b m1 where c: "classify accepts fs dirpath CLASS_HOST m = (b, m1)" by fastforce
  have "b = (fs_ino fs dirpath \<noteq> None)"
    using classify_alive [OF "2.prems"(2), of fs dirpath CLASS_HOST m] c by simp
  with c "2" show ?case by (cases b) (simp_all add: sum_bump)
qed simp

definition stats_total :: "sync_stats \<Rightarrow> int" where
  "stats_total st = ss_pod st + ss_host st + ss_excluded st + ss_warn_only st"

text \<open>The four classes are the only keys, so the four statistics add up to all that was counted.\<close>

definition class_keys :: "class_counts \<Rightarrow> bool" where
  "class_keys counts = (map fst counts = [CLASS_POD, CLASS_HOST, CLASS_EXCLUDED, CLASS_WARN_ONLY])"

lemma dict_set_keys: "k \<in> fst ` set d \<Longrightarrow> map fst (dict_set d k v) = map fst d"
  by (induction d k v rule: dict_set.induct) auto

lemma class_keys_bump:
  assumes "class_keys counts" "cls \<in> {CLASS_POD, CLASS_HOST, CLASS_EXCLUDED, CLASS_WARN_ONLY}"
  shows "class_keys (bump counts cls)"
proof -
  have "cls \<in> set (map fst counts)" using assms by (auto simp: class_keys_def)
  then show ?thesis using assms by (simp add: bump_def class_keys_def dict_set_keys)
qed

lemma class_keys_sum:
  assumes "class_keys counts"
  shows "sum_list (map snd counts) = dict_get counts CLASS_POD 0 + dict_get counts CLASS_HOST 0 +
     dict_get counts CLASS_EXCLUDED 0 + dict_get counts CLASS_WARN_ONLY 0"
proof -
  obtain a b c d where "counts = [(CLASS_POD, a), (CLASS_HOST, b), (CLASS_EXCLUDED, c), (CLASS_WARN_ONLY, d)]"
    using assms by (auto simp: class_keys_def map_eq_Cons_conv)
  then show ?thesis by (simp add: dict_get_def classes)
qed

lemma pod_class_range:
  "pod_class core_v1 s path res = (Inr cls, res') \<Longrightarrow> cls \<in> {CLASS_POD, CLASS_EXCLUDED, CLASS_WARN_ONLY}"
  by (auto simp: pod_class_def namespace_class_def split: option.splits prod.splits sum.splits if_splits)

lemma scan_pods_keys:
  assumes "scan_pods accepts core_v1 fs s dirs counts m res = (Inr counts', m', res')" "class_keys counts"
  shows "class_keys counts'"
  using assms
proof (induction accepts core_v1 fs s dirs counts m res rule: scan_pods.induct)
  case (2 accepts core_v1 fs s dirpath dirs counts m res)
  obtain w res1 where p: "pod_class core_v1 s dirpath res = (w, res1)" by fastforce
  with "2.prems"(1) obtain cls where w: "w = Inr cls" by (cases w) auto
  obtain b m1 where cl: "classify accepts fs dirpath cls m = (b, m1)" by fastforce
  have "cls \<in> {CLASS_POD, CLASS_EXCLUDED, CLASS_WARN_ONLY}"
    using p w by (intro pod_class_range) simp
  then have k: "class_keys (bump counts cls)"
    by (intro class_keys_bump [OF "2.prems"(2)]) auto
  show ?case
  proof (cases b)
    case True
    with "2.IH"(1) [OF p [symmetric] w cl [symmetric]] "2.prems"(1) p w cl k show ?thesis by simp
  next
    case False
    with "2.IH"(2) [OF p [symmetric] w cl [symmetric]] "2.prems" p w cl show ?thesis by simp
  qed
qed simp

lemma scan_host_keys:
  assumes "scan_host accepts fs dirs counts m = (counts', m')" "class_keys counts"
  shows "class_keys counts'"
  using assms
proof (induction accepts fs dirs counts m rule: scan_host.induct)
  case (2 accepts fs dirpath dirs counts m)
  obtain b m1 where "classify accepts fs dirpath CLASS_HOST m = (b, m1)" by fastforce
  with "2" class_keys_bump [OF "2.prems"(2), of CLASS_HOST] show ?case by (cases b) auto
qed simp

section \<open>A small node\<close>

text \<open>One pod, in a namespace of choice, and the shipped namespace lists.\<close>

definition demo_path :: string where
  "demo_path = ''/sys/fs/cgroup/kubepods/pod775d7ebb-eae8-4b34-b3cf-ee1b0f8b6ea4''"

definition demo_env :: "string \<Rightarrow> scan_env" where
  "demo_env ns = \<lparr>se_accepts = always_accepts, se_api = Some (demo_api ns), se_fs = demo_fs, se_elapsed = 0\<rparr>"

definition demo_sync :: cgroup_sync where
  "demo_sync = \<lparr>sy_interval = 5, sy_exclude = [''kubewarden-system''], sy_warn_only = [''kube-system''],
     sy_stop = False, sy_thread = True,
     sy_stats = \<lparr>ss_pod = 0, ss_host = 0, ss_excluded = 0, ss_warn_only = 0, ss_scans = 0, ss_last_scan_ms = 0\<rparr>\<rparr>"

lemma demo_pod_paths: "pod_paths demo_fs = [''/sys/fs/cgroup/kubepods'', demo_path]"
  by (simp add: pod_paths_def kubepods_bases_def demo_fs_def walk_base_def top_dir_def path_join_def
      cgroup_root_def startswith_def endswith_def demo_path_def)

lemma demo_host_paths: "host_paths demo_fs = []"
  by (simp add: host_paths_def host_top_level_def demo_fs_def walk_base_def top_dir_def)

lemma demo_ino: "fs_ino demo_fs p = Some (if p = demo_path then 108000 else 1)"
  by (simp add: demo_fs_def demo_path_def)

lemma demo_uids:
  "extract_pod_uid demo_path = Some ''775d7ebb-eae8-4b34-b3cf-ee1b0f8b6ea4''"
  "extract_pod_uid ''/sys/fs/cgroup/kubepods'' = None"
  by (simp add: demo_path_def demo_uid) (simp add: extract_pod_uid_def re_search_eval)

lemma demo_paths_differ: "''/sys/fs/cgroup/kubepods'' \<noteq> demo_path"
  by (simp add: demo_path_def)

lemma demo_lookup:
  "\<exists>r'. lookup_pod (Some (demo_api ns)) ''775d7ebb-eae8-4b34-b3cf-ee1b0f8b6ea4'' new_resolver
     = (Inr (Some (ns, ''attacker'')), r')"
  by (simp add: lookup_pod_def new_resolver_def demo_api_def demo_pod_def)

lemma demo_scan:
  "\<exists>counts s' r'. scan_once (demo_env ns) demo_sync Map.empty (Some new_resolver)
     = (Inr counts, s', [1 \<mapsto> CLASS_POD, 108000 \<mapsto> namespace_class demo_sync ns], r')"
proof -
  obtain r1 where r1: "lookup_pod (Some (demo_api ns)) ''775d7ebb-eae8-4b34-b3cf-ee1b0f8b6ea4'' new_resolver
     = (Inr (Some (ns, ''attacker'')), r1)"
    using demo_lookup by blast
  show ?thesis
    by (simp add: scan_once_def demo_env_def demo_pod_paths demo_host_paths pod_class_def demo_uids r1
        classify_def demo_ino demo_paths_differ table_put_def always_accepts_def c_uint64_def)
qed

lemma demo_listed: "listed_pod {demo_pod ns} (demo_api ns) (demo_pod ns)"
  by (simp add: listed_pod_def uid_unique_def api_from_def demo_api_def)

lemma demo_own_inode: "own_inode demo_fs demo_path 108000"
  by (simp add: own_inode_def demo_pod_paths demo_host_paths demo_ino demo_paths_differ c_uint64_def)

section \<open>Properties\<close>

text \<open>The filter blinds the agent to nothing but host processes and excluded namespaces:
  after any number of scans, failed ones and lost writes included, a cgroup whose events the kernel
  drops had, at one of the scans, the inode of a directory under a host's top-level name or of a
  directory of a pod in an excluded namespace.\<close>
lemma blinds_only_host_and_excluded:
  assumes "sync_loop envs s Map.empty (Some r) = (s', m', res')"
    and "cache_from P r" and "\<forall>env \<in> set envs. api_from P (se_api env)"
    and "should_skip \<lparr>armed_cgroups = armed, cgroup_class = m'\<rparr> c"
  shows "\<exists>env \<in> set envs. \<exists>path i. fs_ino (se_fs env) path = Some i \<and> c_uint64 i = c \<and>
     (path \<in> set (host_paths (se_fs env)) \<or>
      path \<in> set (pod_paths (se_fs env)) \<and>
        (\<exists>p \<in> P. extract_pod_uid path = Some (pod_uid p) \<and> pod_namespace p \<in> set (sy_exclude s)))"
proof -
  let ?E = "\<lambda>c cls. \<exists>env \<in> set envs. explains P s (se_fs env) c cls"
  have "entries ?E m'"
    by (rule sync_loop_sound [OF assms(1) _ assms(3)])
      (use assms(2) in \<open>auto simp: res_from_def entries_def\<close>)
  moreover obtain cls where "m' c = Some cls" and cls: "cls = CLASS_HOST \<or> cls = CLASS_EXCLUDED"
    using assms(4) by (auto simp: should_skip_def split: option.splits)
  ultimately obtain env where env: "env \<in> set envs" "explains P s (se_fs env) c cls"
    by (auto simp: entries_def)
  then show ?thesis
    using cls by (intro bexI [of _ env]) (fastforce simp: explains_def namespace_class_def classes split: if_splits)+
qed

text \<open>An instance: the agent's own pod, excluded by the shipped policy.\<close>
lemma blinds_only_host_and_excluded_instance:
  "\<exists>s' m' r'. sync_loop [demo_env ''kubewarden-system''] demo_sync Map.empty (Some new_resolver) = (s', m', r') \<and>
     should_skip \<lparr>armed_cgroups = Map.empty, cgroup_class = m'\<rparr> 108000 \<and>
     (\<exists>path i. fs_ino demo_fs path = Some i \<and> c_uint64 i = 108000)"
proof -
  obtain counts s' r' where "scan_once (demo_env ''kubewarden-system'') demo_sync Map.empty (Some new_resolver)
     = (Inr counts, s', [1 \<mapsto> CLASS_POD, 108000 \<mapsto> namespace_class demo_sync ''kubewarden-system''], r')"
    using demo_scan by blast
  then have loop: "sync_loop [demo_env ''kubewarden-system''] demo_sync Map.empty (Some new_resolver)
     = (s', [1 \<mapsto> CLASS_POD, 108000 \<mapsto> CLASS_EXCLUDED], r')"
    by (simp add: namespace_class_def demo_sync_def)
  have skip: "should_skip \<lparr>armed_cgroups = Map.empty, cgroup_class = [1 \<mapsto> CLASS_POD, 108000 \<mapsto> CLASS_EXCLUDED]\<rparr> 108000"
    by (simp add: should_skip_def)
  have "api_from {demo_pod ''kubewarden-system''} (se_api (demo_env ''kubewarden-system''))"
    by (simp add: demo_env_def api_from_def demo_api_def)
  with blinds_only_host_and_excluded [OF loop cache_from_new _ skip] loop skip show ?thesis
    by (fastforce simp: demo_env_def)
qed

text \<open>C31. One successful scan puts the policy into the kernel: for a pod the API server lists, whose
  cgroup's inode no other directory shares, no call of an excluded namespace is reported from
  then on, and no call of a warn-only namespace is answered with a signal, whatever is armed.\<close>
theorem scan_enforces_namespaces:
  assumes "scan_once env s m (Some r) = (Inr counts, s', m', res')"
    and "se_api env = Some api" and "cache_from P r" and "listed_pod P api p"
    and "path \<in> set (pod_paths (se_fs env))" and "path \<notin> set (host_paths (se_fs env))"
    and "extract_pod_uid path = Some (pod_uid p)"
    and "own_inode (se_fs env) path (t_cgroup_id t)" and "accepts_all (se_accepts env)"
  shows "(pod_namespace p \<in> set (sy_exclude s) \<longrightarrow>
            run_probe sc enforce \<lparr>armed_cgroups = armed, cgroup_class = m'\<rparr> t fam arg = dropped) \<and>
         (pod_namespace p \<in> set (sy_warn_only s) \<longrightarrow>
            signals (run_probe sc enforce \<lparr>armed_cgroups = armed, cgroup_class = m'\<rparr> t fam arg) = [])"
proof -
  have "m' (t_cgroup_id t) = Some (namespace_class s (pod_namespace p))"
    using scan_once_writes [OF assms(1-8)] assms(9) by (simp add: accepts_all_def)
  then show ?thesis
    by (auto simp: run_probe_spec delivered_def should_skip_def kernel_kills_def kill_allowed_def
        namespace_class_def classes perf_submit_def dropped_def)
qed

text \<open>Witness of C31: an armed pod of \<open>kube-system\<close> that calls \<open>setns\<close> is not signalled.\<close>
theorem scan_enforces_namespaces_witness:
  "\<exists>counts s' m' r'. scan_once (demo_env ''kube-system'') demo_sync Map.empty (Some new_resolver)
       = (Inr counts, s', m', r') \<and>
     signals (run_probe Setns True \<lparr>armed_cgroups = [108000 \<mapsto> ARMED_KILL], cgroup_class = m'\<rparr>
       \<lparr>t_ktime = 1, t_pid_tgid = 0, t_cgroup_id = 108000, t_comm = ''nsenter'', t_ppid = 1\<rparr> 0 []) = []"
proof -
  let ?t = "\<lparr>t_ktime = 1, t_pid_tgid = 0, t_cgroup_id = 108000, t_comm = ''nsenter'', t_ppid = 1\<rparr>"
  obtain counts s' r' where scan: "scan_once (demo_env ''kube-system'') demo_sync Map.empty (Some new_resolver)
     = (Inr counts, s', [1 \<mapsto> CLASS_POD, 108000 \<mapsto> namespace_class demo_sync ''kube-system''], r')"
    using demo_scan by blast
  have "signals (run_probe Setns True
      \<lparr>armed_cgroups = [108000 \<mapsto> ARMED_KILL],
       cgroup_class = [1 \<mapsto> CLASS_POD, 108000 \<mapsto> namespace_class demo_sync ''kube-system'']\<rparr> ?t 0 []) = []"
  proof (rule scan_enforces_namespaces [OF scan _ cache_from_new demo_listed, THEN conjunct2, rule_format])
    show "own_inode (se_fs (demo_env ''kube-system'')) demo_path (t_cgroup_id ?t)"
      using demo_own_inode by (simp add: demo_env_def)
  qed (simp_all add: demo_env_def demo_pod_paths demo_host_paths demo_uids demo_pod_def demo_sync_def
      accepts_all_def always_accepts_def)
  with scan show ?thesis by blast
qed

text \<open>A scan accounts for every directory: when the map takes every write, the four statistics
  of a successful scan add up to the number of walked directories that still existed.\<close>
lemma scan_counts_every_directory:
  assumes "scan_once env s m res = (Inr counts, s', m', res')" and "accepts_all (se_accepts env)"
  shows "stats_total (sy_stats s') = alive (se_fs env) (pod_paths (se_fs env) @ host_paths (se_fs env))"
proof -
  obtain w m1 res1 where p: "scan_pods (se_accepts env) (se_api env) (se_fs env) s
      (pod_paths (se_fs env)) zero_counts m res = (w, m1, res1)"
    by (metis prod.exhaust)
  with assms(1) obtain counts1 where w: "w = Inr counts1" by (cases w) (auto simp: scan_once_def)
  obtain counts2 m2 where h: "scan_host (se_accepts env) (se_fs env) (host_paths (se_fs env)) counts1 m1
      = (counts2, m2)" by fastforce
  have "class_keys zero_counts" by (simp add: class_keys_def zero_counts_def)
  then have "class_keys counts2"
    by (intro scan_host_keys [OF h] scan_pods_keys [OF p [unfolded w]])
  moreover have "sum_list (map snd counts2)
      = alive (se_fs env) (pod_paths (se_fs env)) + alive (se_fs env) (host_paths (se_fs env))"
    using scan_pods_count [OF p [unfolded w] assms(2)] scan_host_count [OF h assms(2)]
    by (simp add: zero_counts_def)
  ultimately show ?thesis
    using assms(1) p w h class_keys_sum [of counts2]
    by (auto simp: scan_once_def stats_total_def)
qed

text \<open>An instance: the two directories of a node with one pod.\<close>
lemma scan_counts_every_directory_instance:
  "\<exists>counts s' m' r'. scan_once (demo_env ''prod'') demo_sync Map.empty (Some new_resolver)
       = (Inr counts, s', m', r') \<and> stats_total (sy_stats s') = 2"
proof -
  obtain counts s' r' where scan: "scan_once (demo_env ''prod'') demo_sync Map.empty (Some new_resolver)
     = (Inr counts, s', [1 \<mapsto> CLASS_POD, 108000 \<mapsto> namespace_class demo_sync ''prod''], r')"
    using demo_scan by blast
  have "stats_total (sy_stats s') = 2"
    using scan_counts_every_directory [OF scan]
    by (simp add: demo_env_def accepts_all_def always_accepts_def demo_pod_paths demo_host_paths demo_ino)
  with scan show ?thesis by blast
qed

end
