(* ===== verification/Tracer.thy ===== *)
theory Tracer
  imports BpfMap CgroupFs Correlator Metrics
begin

text \<open>
  The user-space half of \<open>bpf/syscall_tracer.py\<close>: what \<open>SyscallTracer.__init__\<close> decides, the
  prefill of the host classes, the decoding of a raw event, the noise filter with its accounting,
  and arming. The perf buffer and \<open>bcc\<close> are libraries: an event is handed to \<open>handle_event\<close> as the
  record the probe submitted, with the clock the handler reads.
\<close>

section \<open>Names\<close>

definition syscall_names :: "(u8 \<times> string) list" where
  "syscall_names =
     [(0, ''execve''), (1, ''openat''), (2, ''chroot''), (3, ''mount''), (4, ''setns''),
      (5, ''move_mount''), (6, ''open_tree''), (7, ''fsmount''), (8, ''pivot_root''),
      (9, ''ptrace''), (10, ''connect''), (11, ''init_module''), (12, ''finit_module''),
      (13, ''delete_module'')]"

definition noise_comms :: "string list" where
  "noise_comms =
     [''containerd-shim'', ''containerd'', ''kubelet'', ''kube-proxy'',
      ''calico-node'', ''felix'', ''bird'', ''birdcl'', ''sv'', ''ip'', ''ipset'',
      ''falco'', ''check-status'', ''coredns'', ''kube-apiserver'', ''systemd'',
      ''etcd'', ''kubectl'', ''iptables'', ''ip6tables'',
      ''kube-controller'', ''kube-scheduler'',
      ''trivy'', ''trivy-operator'', ''grype'', ''syft'']"

definition noise_comm_prefixes :: "string list" where
  "noise_comm_prefixes = [''runc'']"

section \<open>State\<close>

record tracer =
  tr_kernel_enforce :: bool
  tr_total :: int
  tr_passed :: int
  tr_latency_sum :: rat
  tr_latency_max :: rat
  tr_started :: rat
  tr_lost_total :: int

text \<open>
  \<open>__init__\<close> compiles the program with \<open>KERNEL_ENFORCE\<close> exactly when it was asked for and the
  kernel supports it. The flag the program is compiled with is returned beside the object.
\<close>

definition tracer_init :: "bool \<Rightarrow> bool \<Rightarrow> rat \<Rightarrow> bool \<times> tracer" where
  "tracer_init kernel_enforce support_raw_tracepoint now =
     (let cflag = kernel_enforce \<and> support_raw_tracepoint;
          enforce = (if kernel_enforce \<and> support_raw_tracepoint then kernel_enforce
                     else if kernel_enforce then False else kernel_enforce)
      in (cflag,
          \<lparr>tr_kernel_enforce = enforce, tr_total = 0, tr_passed = 0, tr_latency_sum = 0,
           tr_latency_max = 0, tr_started = now, tr_lost_total = 0\<rparr>))"

definition handle_lost :: "int \<Rightarrow> tracer \<Rightarrow> metrics option \<Rightarrow> tracer \<times> metrics option" where
  "handle_lost count tr metrics =
     (tr\<lparr>tr_lost_total := tr_lost_total tr + count\<rparr>, map_option (metrics_on_lost count) metrics)"

section \<open>Prefill\<close>

text \<open>
  The count \<open>n\<close>, the first three failures (by directory; the exception's text is left out) and the
  missing top-level names are what the log lines at the end are made of, which are not modelled; the table is the one the kernel reads.
\<close>

definition note_error :: "string list \<Rightarrow> string \<Rightarrow> string list" where
  "note_error errors dirpath = (if length errors < 3 then errors @ [dirpath] else errors)"

fun prefill_dirs :: "accepts \<Rightarrow> cgroupfs \<Rightarrow> string list \<Rightarrow> nat \<times> string list \<times> table \<Rightarrow> nat \<times> string list \<times> table" where
  "prefill_dirs accepts fs [] (n, errors, m) = (n, errors, m)"
| "prefill_dirs accepts fs (dirpath # dirs) (n, errors, m) =
     (case fs_ino fs dirpath of
        None \<Rightarrow> prefill_dirs accepts fs dirs (n, note_error errors dirpath, m)
      | Some cid \<Rightarrow>
          (case table_put accepts m (c_uint64 cid) CLASS_HOST of
             Some m' \<Rightarrow> prefill_dirs accepts fs dirs (n + 1, errors, m')
           | None \<Rightarrow> prefill_dirs accepts fs dirs (n, note_error errors dirpath, m)))"

fun prefill_tops ::
    "accepts \<Rightarrow> cgroupfs \<Rightarrow> string list \<Rightarrow> string list \<Rightarrow> nat \<times> string list \<times> table \<Rightarrow>
     string list \<times> nat \<times> string list \<times> table" where
  "prefill_tops accepts fs [] missing st = (missing, st)"
| "prefill_tops accepts fs (top_name # tops) missing st =
     (if top_dir fs top_name = None then prefill_tops accepts fs tops (missing @ [top_name]) st
      else prefill_tops accepts fs tops missing (prefill_dirs accepts fs (walk_base fs top_name) st))"

definition prefill_host_classes :: "accepts \<Rightarrow> cgroupfs \<Rightarrow> table \<Rightarrow> string list \<times> nat \<times> string list \<times> table" where
  "prefill_host_classes accepts fs m = prefill_tops accepts fs host_top_level [] (0, [], m)"

section \<open>Arming\<close>

definition tracer_ARMED_KILL :: u8 where "tracer_ARMED_KILL = 1"

definition arm :: "accepts \<Rightarrow> int \<Rightarrow> table \<Rightarrow> bool \<times> table" where
  "arm accepts cgroup_id armed =
     (case table_put accepts armed (c_uint64 cgroup_id) tracer_ARMED_KILL of
        Some armed' \<Rightarrow> (True, armed')
      | None \<Rightarrow> (False, armed))"

text \<open>\<open>del table[key]\<close> raises on a missing key; \<open>disarm\<close> swallows that.\<close>

definition disarm :: "int \<Rightarrow> table \<Rightarrow> table" where
  "disarm cgroup_id armed = armed(c_uint64 cgroup_id := None)"

definition armed_set :: "table \<Rightarrow> int set" where
  "armed_set armed = uint ` dom armed"

section \<open>Events\<close>

text \<open>A \<open>c_char\<close> array read from Python ends at its first zero byte.\<close>

definition c_string :: "nat \<Rightarrow> string \<Rightarrow> string" where
  "c_string n raw = takeWhile (\<lambda>c. c \<noteq> CHR 0x00) (take n raw)"

definition parse_event :: "int \<Rightarrow> event_t \<Rightarrow> event" where
  "parse_event now_ns e =
     \<lparr>ev_pid = uint (raw_pid e), ev_ppid = uint (raw_ppid e), ev_cgroup_id = uint (raw_cgroup_id e),
      ev_comm = decode_replace (c_string 16 (raw_comm e)),
      ev_filename = decode_replace (c_string 256 (raw_filename e)),
      ev_syscall = dict_get syscall_names (raw_syscall_type e) ''unknown'',
      ev_ts = of_int (uint (raw_ktime e)) / 10 ^ 9,
      ev_latency_ms = of_int (now_ns - uint (raw_ktime e)) / 10 ^ 6,
      ev_killed_in_kernel = (raw_killed_in_kernel e \<noteq> 0)\<rparr>"

definition is_noise :: "string \<Rightarrow> bool" where
  "is_noise comm =
     (comm \<in> set noise_comms \<or> list_ex (startswith comm) noise_comm_prefixes \<or> isdigit comm)"

text \<open>The event handed to the callback, if any, after the accounting.\<close>

definition handle_event ::
    "int \<Rightarrow> event_t \<Rightarrow> tracer \<Rightarrow> metrics option \<Rightarrow> event option \<times> tracer \<times> metrics option" where
  "handle_event now_ns e tr metrics =
     (let parsed = parse_event now_ns e;
          latency_ms = ev_latency_ms parsed;
          tr = tr\<lparr>tr_total := tr_total tr + 1, tr_latency_sum := tr_latency_sum tr + latency_ms\<rparr>;
          tr = (if tr_latency_max tr < latency_ms then tr\<lparr>tr_latency_max := latency_ms\<rparr> else tr);
          passed = (\<not> is_noise (ev_comm parsed));
          metrics =
            (case metrics of
               None \<Rightarrow> None
             | Some m \<Rightarrow>
                 let m = metrics_on_event latency_ms passed m
                 in Some (if ev_killed_in_kernel parsed then metrics_inc Killed_in_kernel 1 m else m))
      in if \<not> passed then (None, tr, metrics)
         else (Some parsed, tr\<lparr>tr_passed := tr_passed tr + 1\<rparr>, metrics))"

definition stats_summary :: "rat \<Rightarrow> tracer \<Rightarrow> string result" where
  "stats_summary now tr =
     (let n = tr_total tr; elapsed = now - tr_started tr
      in if n = 0 then Inr ''no events''
         else if elapsed = 0 then Inl ZeroDivisionError
         else Inr (''events='' @ show_int n @ '' ('' @ fmt_fixed 0 (of_int n / elapsed) @ ''/s), '' @
                   ''passed filter='' @ show_int (tr_passed tr) @ '' ('' @
                   fmt_fixed 1 (100 * of_int (tr_passed tr) / of_int n) @ ''%), '' @
                   ''latency avg='' @ fmt_fixed 2 (tr_latency_sum tr / of_int n) @ ''ms '' @
                   ''max='' @ fmt_fixed 2 (tr_latency_max tr) @ ''ms''))"

section \<open>The filter\<close>

lemma handle_event_delivers:
  "fst (handle_event now e tr metrics) =
     (if is_noise (ev_comm (parse_event now e)) then None else Some (parse_event now e))"
  by (simp add: handle_event_def Let_def)

lemma handle_event_metrics:
  "snd (snd (handle_event now e tr metrics)) =
     map_option (\<lambda>m. let m = metrics_on_event (ev_latency_ms (parse_event now e))
                          (\<not> is_noise (ev_comm (parse_event now e))) m
                    in if ev_killed_in_kernel (parse_event now e) then metrics_inc Killed_in_kernel 1 m else m)
       metrics"
  by (cases metrics) (simp_all add: handle_event_def Let_def)

text \<open>A history of events, each with the clock its handler reads.\<close>

fun run_tracer_events :: "(int \<times> event_t) list \<Rightarrow> tracer \<Rightarrow> metrics option \<Rightarrow> tracer \<times> metrics option" where
  "run_tracer_events [] tr metrics = (tr, metrics)"
| "run_tracer_events ((now, e) # es) tr metrics =
     (let (delivered, tr, metrics) = handle_event now e tr metrics in run_tracer_events es tr metrics)"

text \<open>The two accounts of the same traffic, the tracer's own and the collector's.\<close>

definition accounts_agree :: "tracer \<Rightarrow> metrics \<Rightarrow> bool" where
  "accounts_agree tr m =
     (mt_events_total m = tr_total tr \<and> mt_events_passed m = tr_passed tr \<and>
      mt_latency_sum m = tr_latency_sum tr \<and> mt_latency_max m = tr_latency_max tr)"

lemma accounts_agree_step:
  assumes "accounts_agree tr m" "handle_event now e tr (Some m) = (d, tr', mx)"
  shows "\<exists>m'. mx = Some m' \<and> accounts_agree tr' m' \<and>
     mt_killed_in_kernel m' = mt_killed_in_kernel m + (if raw_killed_in_kernel e \<noteq> 0 then 1 else 0)"
  using assms
  by (auto simp: accounts_agree_def handle_event_def metrics_on_event_def Let_def parse_event_def
      split: if_splits)

lemma run_tracer_metrics: "\<exists>tr' m'. run_tracer_events es tr (Some m) = (tr', Some m')"
proof (induction es arbitrary: tr m)
  case (Cons x es)
  then show ?case
    by (cases x) (simp add: handle_event_def Let_def)
qed simp

lemma c_string_prefix:
  assumes "prefix p s" "length p \<le> n" "CHR 0x00 \<notin> set p"
  shows "prefix p (c_string n s)"
proof -
  obtain r where s: "s = p @ r" using assms(1) by (rule prefixE)
  have "take n s = p @ take (n - length p) r" using assms(2) by (simp add: s)
  moreover have "takeWhile (\<lambda>c. c \<noteq> CHR 0x00) (p @ x) = p @ takeWhile (\<lambda>c. c \<noteq> CHR 0x00) x" for x
    using assms(3) by (intro takeWhile_append2) auto
  ultimately show ?thesis by (simp add: c_string_def)
qed

text \<open>The name the agent uses for each probe's system call: \<open>openat2\<close> is reported as \<open>openat\<close>.\<close>

fun syscall_label :: "syscall \<Rightarrow> string" where
  "syscall_label Execve = ''execve''"
| "syscall_label Openat = ''openat''"
| "syscall_label Openat2 = ''openat''"
| "syscall_label Chroot = ''chroot''"
| "syscall_label Mount = ''mount''"
| "syscall_label Setns = ''setns''"
| "syscall_label MoveMount = ''move_mount''"
| "syscall_label OpenTree = ''open_tree''"
| "syscall_label Fsmount = ''fsmount''"
| "syscall_label PivotRoot = ''pivot_root''"
| "syscall_label Ptrace = ''ptrace''"
| "syscall_label Connect = ''connect''"
| "syscall_label InitModule = ''init_module''"
| "syscall_label FinitModule = ''finit_module''"
| "syscall_label DeleteModule = ''delete_module''"

lemma syscall_name_of_code: "dict_get syscall_names (type_code sc) ''unknown'' = syscall_label sc"
  by (cases sc) (simp_all add: syscall_names_def dict_get_def)

section \<open>Prefill\<close>

definition marks_host :: "cgroupfs \<Rightarrow> string list \<Rightarrow> table \<Rightarrow> table \<Rightarrow> bool" where
  "marks_host fs dirs m m' =
     (\<forall>c. m' c = (if \<exists>path \<in> set dirs. \<exists>i. fs_ino fs path = Some i \<and> c_uint64 i = c
                 then Some CLASS_HOST else m c))"

lemma prefill_dirs_Nil [simp]: "prefill_dirs accepts fs [] st = st"
  by (cases st) simp

lemma prefill_dirs_append:
  "prefill_dirs accepts fs (xs @ ys) st = prefill_dirs accepts fs ys (prefill_dirs accepts fs xs st)"
  by (induction accepts fs xs st rule: prefill_dirs.induct) (simp_all split: option.split)

lemma prefill_tops_dirs:
  "snd (prefill_tops accepts fs tops missing st) = prefill_dirs accepts fs (concat (map (walk_base fs) tops)) st"
proof (induction accepts fs tops missing st rule: prefill_tops.induct)
  case (2 accepts fs top_name tops missing st)
  then show ?case
    by (cases "top_dir fs top_name") (simp_all add: walk_base_bounded prefill_dirs_append)
qed simp

lemma prefill_dirs_marks:
  assumes "prefill_dirs accepts fs dirs (n, errors, m) = (n', errors', m')" "accepts_all accepts"
  shows "marks_host fs dirs m m' \<and> n' = n + length (filter (\<lambda>d. fs_ino fs d \<noteq> None) dirs)"
  using assms
proof (induction dirs arbitrary: n errors m)
  case (Cons d dirs)
  show ?case
  proof (cases "fs_ino fs d")
    case None
    with Cons show ?thesis by (fastforce simp: marks_host_def)
  next
    case (Some i)
    with Cons.prems have "prefill_dirs accepts fs dirs (n + 1, errors, m(c_uint64 i \<mapsto> CLASS_HOST)) = (n', errors', m')"
      by (simp add: table_put_def accepts_all_def)
    from Cons.IH [OF this Cons.prems(2)] Some show ?thesis
      by (auto simp: marks_host_def)
  qed
qed (simp add: marks_host_def)

section \<open>Properties\<close>

text \<open>C27. The two accounts of the traffic agree: after any history of events the collector's totals,
  passed events, latency sum and maximum are the tracer's own, and its count of kernel kills is the
  number of events the kernel marked.\<close>
theorem tracer_and_metrics_agree:
  assumes "run_tracer_events es (snd (tracer_init want support start)) (Some (new_metrics node start))
     = (tr, Some m)"
  shows "mt_events_total m = tr_total tr \<and> mt_events_passed m = tr_passed tr \<and>
     mt_latency_sum m = tr_latency_sum tr \<and> mt_latency_max m = tr_latency_max tr \<and>
     mt_killed_in_kernel m = int (length (filter (\<lambda>(now, e). raw_killed_in_kernel e \<noteq> 0) es))"
proof -
  have "accounts_agree tr m \<and>
      mt_killed_in_kernel m = mt_killed_in_kernel m0 +
        int (length (filter (\<lambda>(now, e). raw_killed_in_kernel e \<noteq> 0) es))"
    if "run_tracer_events es tr0 (Some m0) = (tr, Some m)" "accounts_agree tr0 m0" for tr0 m0
    using that
  proof (induction es arbitrary: tr0 m0)
    case (Cons x es)
    obtain now e where x: "x = (now, e)" by fastforce
    obtain d tr1 mx where h: "handle_event now e tr0 (Some m0) = (d, tr1, mx)"
      by (metis prod.exhaust)
    with accounts_agree_step [OF Cons.prems(2) h] Cons show ?case by (fastforce simp: x)
  qed simp
  from this [OF assms] show ?thesis
    by (simp add: accounts_agree_def tracer_init_def new_metrics_def Let_def)
qed

text \<open>Witness of C27: a file read by a container and a \<open>setns\<close> the kernel answered.\<close>
theorem tracer_and_metrics_agree_witness:
  "\<exists>tr m. run_tracer_events
      [(5, zero_event\<lparr>raw_comm := ''cat''\<rparr>), (9, zero_event\<lparr>raw_comm := ''nsenter'', raw_killed_in_kernel := 1\<rparr>)]
      (snd (tracer_init True True 0)) (Some (new_metrics ''worker-1'' 0)) = (tr, Some m) \<and>
     mt_killed_in_kernel m = 1"
proof -
  let ?es = "[(5, zero_event\<lparr>raw_comm := ''cat''\<rparr>), (9, zero_event\<lparr>raw_comm := ''nsenter'', raw_killed_in_kernel := 1\<rparr>)]"
  obtain tr m where r: "run_tracer_events ?es (snd (tracer_init True True 0)) (Some (new_metrics ''worker-1'' 0)) = (tr, Some m)"
    using run_tracer_metrics by blast
  with tracer_and_metrics_agree [OF r] show ?thesis by (simp add: zero_event_def)
qed

text \<open>C33. User space and the kernel speak of the same call: the event any probe submits is parsed
  with the name of the system call the probe is attached to, the cgroup of the calling task, and
  the mark exactly when the probe sent a signal.\<close>
theorem probe_events_parse:
  assumes "submitted (run_probe sc enforce m t fam arg) = Some e"
  shows "ev_syscall (parse_event now e) = syscall_label sc \<and>
     ev_cgroup_id (parse_event now e) = uint (t_cgroup_id t) \<and>
     (ev_killed_in_kernel (parse_event now e) \<longleftrightarrow> signals (run_probe sc enforce m t fam arg) = [9])"
  using assms
  by (auto simp: run_probe_spec perf_submit_def dropped_def parse_event_def probe_event_def
      syscall_name_of_code split: if_splits)

text \<open>Witness of C33: \<open>openat2\<close> is reported as \<open>openat\<close>.\<close>
theorem probe_events_parse_witness:
  "\<exists>e. submitted (run_probe Openat2 True \<lparr>armed_cgroups = Map.empty, cgroup_class = Map.empty\<rparr>
       \<lparr>t_ktime = 1, t_pid_tgid = 0, t_cgroup_id = 5, t_comm = ''cat'', t_ppid = 1\<rparr> 0 ''/etc/shadow'') = Some e \<and>
     ev_syscall (parse_event 7 e) = ''openat''"
proof -
  let ?r = "run_probe Openat2 True \<lparr>armed_cgroups = Map.empty, cgroup_class = Map.empty\<rparr>
       \<lparr>t_ktime = 1, t_pid_tgid = 0, t_cgroup_id = 5, t_comm = ''cat'', t_ppid = 1\<rparr> 0 ''/etc/shadow''"
  obtain e where "submitted ?r = Some e"
    by (simp add: run_probe_spec delivered_def should_skip_def perf_submit_def del: run_probe.simps)
  with probe_events_parse [OF this, of 7] show ?thesis by simp
qed

text \<open>C34. A process whose name starts with \<open>runc\<close> is out of reach of both halves: the kernel answers
  none of its calls, red lines included, and user space discards the event of every one of
  them.\<close>
theorem runc_names_are_invisible:
  assumes "prefix ''runc'' (t_comm t)"
  shows "signals (run_probe sc enforce m t fam arg) = [] \<and>
     (\<forall>e. submitted (run_probe sc enforce m t fam arg) = Some e \<longrightarrow>
        fst (handle_event now e tr metrics) = None)"
proof -
  have "is_container_runtime (t_comm t)" using assms by (simp add: is_container_runtime_iff)
  moreover have "prefix ''runc'' (decode_replace (c_string 16 (t_comm t)))"
    using c_string_prefix [OF assms, of 16] by (simp add: decode_prefix ascii_def byte_def)
  then have "is_noise (decode_replace (c_string 16 (t_comm t)))"
    by (simp add: is_noise_def noise_comm_prefixes_def startswith_prefix)
  ultimately show ?thesis
    by (auto simp: run_probe_spec kernel_kills_def perf_submit_def dropped_def handle_event_delivers
        parse_event_def probe_event_def)
qed

text \<open>Witness of C34: a shell an attacker renamed.\<close>
theorem runc_names_are_invisible_witness:
  "signals (run_probe Setns True \<lparr>armed_cgroups = Map.empty, cgroup_class = Map.empty\<rparr>
     \<lparr>t_ktime = 1, t_pid_tgid = 0, t_cgroup_id = 5, t_comm = ''runcmd'', t_ppid = 1\<rparr> 0 []) = []"
  by (rule runc_names_are_invisible [THEN conjunct1]) simp

text \<open>The prefill silences the host and nothing else: when the map takes every write, afterwards
  exactly the existing directories under a host's top-level names are classified as host, on top
  of what the table held, and the reported number is the number of directories marked.\<close>
lemma prefill_marks_exactly_hosts:
  assumes "prefill_host_classes accepts fs m = (missing, n, errors, m')" and "accepts_all accepts"
  shows "marks_host fs (host_paths fs) m m' \<and>
     n = length (filter (\<lambda>d. fs_ino fs d \<noteq> None) (host_paths fs))"
proof -
  have "prefill_dirs accepts fs (host_paths fs) (0, [], m) = (n, errors, m')"
    using assms(1) prefill_tops_dirs [of accepts fs host_top_level "[]" "(0, [], m)"]
    by (simp add: prefill_host_classes_def host_paths_def)
  from prefill_dirs_marks [OF this assms(2)] show ?thesis by simp
qed

text \<open>An instance: a node whose only host directory is that of the kubelet.\<close>
lemma prefill_marks_exactly_hosts_instance:
  "\<exists>missing errors m'.
     prefill_host_classes always_accepts
       \<lparr>fs_top = [Dir ''system.slice'' []], fs_ino = (\<lambda>p. Some 12), fs_kill = (\<lambda>p. KillMissing)\<rparr> Map.empty
       = (missing, 1, errors, m') \<and> m' 12 = Some CLASS_HOST \<and> m' 13 = None"
proof -
  let ?fs = "\<lparr>fs_top = [Dir ''system.slice'' []], fs_ino = (\<lambda>p. Some 12), fs_kill = (\<lambda>p. KillMissing)\<rparr>"
  have paths: "length (host_paths ?fs) = 1"
    by (simp add: host_paths_def host_top_level_def walk_base_def top_dir_def)
  obtain missing n errors m' where p: "prefill_host_classes always_accepts ?fs Map.empty = (missing, n, errors, m')"
    by (metis prod.exhaust)
  from prefill_marks_exactly_hosts [OF p] paths have
    "marks_host ?fs (host_paths ?fs) Map.empty m'" "n = 1"
    by (simp_all add: accepts_all_def always_accepts_def)
  moreover have "host_paths ?fs \<noteq> []" using paths by auto
  ultimately show ?thesis using p by (auto simp: marks_host_def c_uint64_def neq_Nil_conv)
qed

end
