(* ===== verification/Agent.thy ===== *)
theory Agent
  imports ApiWorkers CgroupSync Tracer
begin

text \<open>
  \<open>main.py\<close>: the wiring of the components and \<open>on_event\<close>, the callback in which they meet. The
  objects the callback closes over are the fields of \<open>agent\<close>; the resolver and the metrics
  collector, which several components share, are in its \<open>shared\<close> part together with the effects.
  What one call meets is an \<open>aenv\<close>: the killer's environment, the clock the correlator reads and
  the table's willingness to take a write. The callback only runs inside the poll loop, after
  \<open>tracer_ref\<close> has been filled, so the tracer is always there.
\<close>

section \<open>State\<close>

record agent =
  ag_policy :: policy
  ag_killer :: "killer option"
  ag_kernel_enforce :: bool
  ag_stories :: stories
  ag_last_decision :: "int \<rightharpoonup> decision"
  ag_shared :: shared
  ag_armed :: table

record aenv = kenv +
  ae_clock :: rat
  ae_accepts :: accepts

text \<open>The API the shared resolver has: the killer's, or none with \<open>--no-k8s\<close>.\<close>

definition agent_api :: "aenv \<Rightarrow> agent \<Rightarrow> pod_api option" where
  "agent_api env a = (if ag_killer a = None then None else Some (ke_core_v1 env))"

section \<open>Messages\<close>

fun decision_value :: "decision \<Rightarrow> string" where
  "decision_value ALLOW = ''ALLOW''"
| "decision_value WARN = ''WARN''"
| "decision_value KILL = ''KILL''"

definition msg_killed_in_kernel :: "event \<Rightarrow> string" where
  "msg_killed_in_kernel e =
     ''cgroup='' @ show_int (ev_cgroup_id e) @ '' KILLED IN KERNEL: '' @
     ev_syscall e @ ''('' @ ev_filename e @ '') proc='' @ ev_comm e @ '' '' @
     ''pid='' @ show_int (ev_pid e) @ '' (latency '' @ fmt_fixed 2 (ev_latency_ms e) @ ''ms)''"

definition msg_warn :: "int \<Rightarrow> string \<Rightarrow> string" where
  "msg_warn cgroup_id reason = ''cgroup='' @ show_int cgroup_id @ '' '' @ reason"

definition msg_armed :: "int \<Rightarrow> string" where
  "msg_armed cgroup_id =
     ''cgroup='' @ show_int cgroup_id @ '' ARMED: '' @ ''chroot/mount/setns will now be killed in-kernel''"

definition msg_kill :: "int \<Rightarrow> string \<Rightarrow> string" where
  "msg_kill cgroup_id reason = ''cgroup='' @ show_int cgroup_id @ '' KILL '' @ em_dash @ '' '' @ reason"

section \<open>The callback\<close>

definition count_detection :: "aenv \<Rightarrow> int \<Rightarrow> decision \<Rightarrow> agent \<Rightarrow> unit result \<times> agent" where
  "count_detection env cgroup_id d a =
     (if sh_metrics (ag_shared a) = None then (Inr (), a)
      else
        (let (res, r) = resolve (agent_api env a) (ke_fs env) cgroup_id (sh_resolver (ag_shared a));
             sh = (ag_shared a)\<lparr>sh_resolver := r\<rparr>
         in case res of
              Inl e \<Rightarrow> (Inl e, a\<lparr>ag_shared := sh\<rparr>)
            | Inr found \<Rightarrow>
                (let ns = (case found of None \<Rightarrow> ''unknown'' | Some (namespace, name) \<Rightarrow> namespace)
                 in (Inr (), a\<lparr>ag_shared := on_metrics (metrics_on_detection ns (decision_value d)) sh\<rparr>))))"

definition respond_warn :: "aenv \<Rightarrow> int \<Rightarrow> string \<Rightarrow> agent \<Rightarrow> agent" where
  "respond_warn env cgroup_id reason a =
     (let sh = log_msg Warning (msg_warn cgroup_id reason) (ag_shared a)
      in if ag_kernel_enforce a then
           (case arm (ae_accepts env) cgroup_id (ag_armed a) of
              (True, armed) \<Rightarrow> a\<lparr>ag_armed := armed, ag_shared := log_msg Info (msg_armed cgroup_id) sh\<rparr>
            | (False, armed) \<Rightarrow> a\<lparr>ag_armed := armed, ag_shared := sh\<rparr>)
         else a\<lparr>ag_shared := sh\<rparr>)"

definition respond_kill :: "aenv \<Rightarrow> int \<Rightarrow> string \<Rightarrow> agent \<Rightarrow> unit result \<times> agent" where
  "respond_kill env cgroup_id reason a =
     (let sh = log_msg Critical (msg_kill cgroup_id reason) (ag_shared a)
      in case ag_killer a of
           None \<Rightarrow> (Inr (), a\<lparr>ag_shared := sh\<rparr>)
         | Some k \<Rightarrow>
             (case handle_kill (kenv.truncate env) cgroup_id reason k sh of
                (Inl e, k, sh) \<Rightarrow> (Inl e, a\<lparr>ag_killer := Some k, ag_shared := sh\<rparr>)
              | (Inr killed, k, sh) \<Rightarrow>
                  (let a = a\<lparr>ag_killer := Some k, ag_shared := sh\<rparr>
                   in (Inr (),
                       if killed then
                         a\<lparr>ag_stories := forget_story cgroup_id (ag_stories a),
                           ag_last_decision := (ag_last_decision a)(cgroup_id := None),
                           ag_armed := disarm cgroup_id (ag_armed a)\<rparr>
                       else a))))"

definition on_verdict :: "aenv \<Rightarrow> attack_story \<Rightarrow> decision \<Rightarrow> agent \<Rightarrow> unit result \<times> agent" where
  "on_verdict env story d a =
     (let cgroup_id = st_cgroup_id story in
      if d = ALLOW then (Inr (), a\<lparr>ag_last_decision := (ag_last_decision a)(cgroup_id := None)\<rparr>)
      else if ag_last_decision a cgroup_id = Some d then (Inr (), a)
      else
        (let a = a\<lparr>ag_last_decision := (ag_last_decision a)(cgroup_id \<mapsto> d)\<rparr>;
             reason = policy_reason story
         in case count_detection env cgroup_id d a of
              (Inl e, a) \<Rightarrow> (Inl e, a)
            | (Inr _, a) \<Rightarrow>
                (if d = WARN then (Inr (), respond_warn env cgroup_id reason a)
                 else respond_kill env cgroup_id reason a)))"

definition on_event :: "aenv \<Rightarrow> event \<Rightarrow> agent \<Rightarrow> unit result \<times> agent" where
  "on_event env e a =
     (let (is_pod, r) = is_pod_cgroup (ke_fs env) (ev_cgroup_id e) (sh_resolver (ag_shared a));
          a = a\<lparr>ag_shared := (ag_shared a)\<lparr>sh_resolver := r\<rparr>\<rparr>
      in if \<not> is_pod then (Inr (), a)
         else
           (let a = (if ev_killed_in_kernel e
                     then a\<lparr>ag_shared := log_msg Critical (msg_killed_in_kernel e) (ag_shared a)\<rparr> else a);
                (sts, story) = process (ae_clock env) e (ag_stories a);
                a = a\<lparr>ag_stories := sts\<rparr>
            in case evaluate (ag_policy a) story of
                 Inl err \<Rightarrow> (Inl err, a)
               | Inr d \<Rightarrow> on_verdict env story d a))"

text \<open>
  One record off the perf buffer: the tracer's handler and, for an event it lets through, the
  callback. An exception is printed by the C callback's wrapper and the poll loop goes on, with
  whatever state it left behind.
\<close>

definition agent_handle :: "aenv \<Rightarrow> int \<Rightarrow> event_t \<Rightarrow> tracer \<Rightarrow> agent \<Rightarrow> unit result \<times> tracer \<times> agent" where
  "agent_handle env now_ns raw tr a =
     (let (delivered, tr, mx) = handle_event now_ns raw tr (sh_metrics (ag_shared a));
          a = a\<lparr>ag_shared := (ag_shared a)\<lparr>sh_metrics := mx\<rparr>\<rparr>
      in case delivered of
           None \<Rightarrow> (Inr (), tr, a)
         | Some e \<Rightarrow> (let (res, a) = on_event env e a in (res, tr, a)))"

fun run_agent :: "(aenv \<times> int \<times> event_t) list \<Rightarrow> tracer \<Rightarrow> agent \<Rightarrow> tracer \<times> agent" where
  "run_agent [] tr a = (tr, a)"
| "run_agent ((env, now_ns, raw) # evs) tr a =
     (let (res, tr, a) = agent_handle env now_ns raw tr a in run_agent evs tr a)"

section \<open>Startup\<close>

record config =
  cf_enforce :: bool
  cf_no_k8s :: bool
  cf_kernel_enforce :: bool
  cf_no_kernel_filter :: bool
  cf_sync_interval :: rat
  cf_metrics_port :: int

definition make_repeat :: "policy \<Rightarrow> repeat_tracker option" where
  "make_repeat p =
     (if truthy (repeat_enabled p)
      then Some (new_tracker (repeat_window_sec p) (repeat_threshold p) (repeat_action p)) else None)"

definition make_killer :: "config \<Rightarrow> policy \<Rightarrow> killer option result" where
  "make_killer cf p =
     (if cf_no_k8s cf then Inr None
      else and_then (new_killer (\<not> cf_enforce cf) (exclude_namespaces p) (warn_only_namespaces p) (make_repeat p))
             (\<lambda>k. Inr (Some k)))"

section \<open>Gauges\<close>

definition update_gauges :: "cgroup_sync option \<Rightarrow> agent \<Rightarrow> agent" where
  "update_gauges sync a =
     (let armed = int (card (dom (ag_armed a)));
          (classes, sync_ms) =
            (case sync of
               None \<Rightarrow> ([], 0)
             | Some s \<Rightarrow>
                 (let st = sy_stats s
                  in ([(''pod'', ss_pod st), (''host'', ss_host st),
                       (''warn_only'', ss_warn_only st), (''excluded'', ss_excluded st)],
                      ss_last_scan_ms st)));
          r = sh_resolver (ag_shared a);
          caches = [(''path'', int (length (path_cache r))), (''pod'', int (length (pod_cache r))),
                    (''owner'', int (length (owner_cache r))),
                    (''not_in_kubepods'', int (length (not_in_kubepods r)))];
          rs = (case ag_killer a of
                  None \<Rightarrow> 0
                | Some k \<Rightarrow> (case ki_repeat k of None \<Rightarrow> 0 | Some rt \<Rightarrow> int (active_sources rt)))
      in a\<lparr>ag_shared := on_metrics (metrics_set_gauges armed classes caches rs sync_ms) (ag_shared a)\<rparr>)"

text \<open>
  What \<open>main\<close> has built when it starts polling: the agent, the tracer with the flag the eBPF
  program was compiled with, the class table, and the classifier if it runs.
\<close>

record system =
  sys_agent :: agent
  sys_tracer :: tracer
  sys_enforce :: bool
  sys_classes :: table
  sys_sync :: "cgroup_sync option"

definition launch :: "config \<Rightarrow> agent \<Rightarrow> rat \<Rightarrow> bool \<Rightarrow> scan_env \<Rightarrow> system result" where
  "launch cf a now support_raw_tracepoint env =
     (let (cflag, tr) = tracer_init (cf_kernel_enforce cf) support_raw_tracepoint now;
          (missing, n, errors, classes) = prefill_host_classes (se_accepts env) (se_fs env) Map.empty;
          a = update_gauges None a;
          sys = \<lparr>sys_agent = a, sys_tracer = tr, sys_enforce = cflag, sys_classes = classes, sys_sync = None\<rparr>
      in if cf_no_kernel_filter cf then Inr sys
         else
           and_then
             (start_cgroup_sync (cf_sync_interval cf) (exclude_namespaces (ag_policy a))
                (warn_only_namespaces (ag_policy a)) False env classes (Some (sh_resolver (ag_shared a))))
             (\<lambda>(s, classes, res). Inr (sys\<lparr>sys_classes := classes, sys_sync := Some s\<rparr>)))"

definition main_setup :: "config \<Rightarrow> yval \<Rightarrow> string \<Rightarrow> rat \<Rightarrow> bool \<Rightarrow> scan_env \<Rightarrow> system result" where
  "main_setup cf document node now support_raw_tracepoint env =
     (let metrics = (if cf_metrics_port cf = 0 then None else Some (new_metrics node now)) in
      and_then (policy_init document) (\<lambda>p.
      and_then (make_killer cf p) (\<lambda>k.
        launch cf
          \<lparr>ag_policy = p, ag_killer = k, ag_kernel_enforce = cf_kernel_enforce cf,
           ag_stories = Map.empty, ag_last_decision = Map.empty,
           ag_shared = \<lparr>sh_resolver = new_resolver, sh_metrics = metrics, sh_effects = []\<rparr>,
           ag_armed = Map.empty\<rparr>
          now support_raw_tracepoint env)))"

lemma main_setup_agent:
  assumes "main_setup cf document node now support env = Inr sys"
  obtains p k where "policy_init document = Inr p" "make_killer cf p = Inr k"
    "sys_agent sys = update_gauges None
       \<lparr>ag_policy = p, ag_killer = k, ag_kernel_enforce = cf_kernel_enforce cf,
        ag_stories = Map.empty, ag_last_decision = Map.empty,
        ag_shared = \<lparr>sh_resolver = new_resolver,
          sh_metrics = (if cf_metrics_port cf = 0 then None else Some (new_metrics node now)), sh_effects = []\<rparr>,
        ag_armed = Map.empty\<rparr>"
    "sys_enforce sys = (cf_kernel_enforce cf \<and> support)"
    "sys_classes sys = snd (snd (snd (prefill_host_classes (se_accepts env) (se_fs env) Map.empty)))"
  using assms
  by (auto simp: main_setup_def launch_def start_cgroup_sync_def sync_start_def tracer_init_def Let_def
      split_beta and_then_Inr_iff split: if_splits)

lemma update_gauges_frame [simp]:
  "ag_policy (update_gauges s a) = ag_policy a"
  "ag_killer (update_gauges s a) = ag_killer a"
  "ag_kernel_enforce (update_gauges s a) = ag_kernel_enforce a"
  "ag_stories (update_gauges s a) = ag_stories a"
  "ag_last_decision (update_gauges s a) = ag_last_decision a"
  "ag_armed (update_gauges s a) = ag_armed a"
  "sh_resolver (ag_shared (update_gauges s a)) = sh_resolver (ag_shared a)"
  "sh_effects (ag_shared (update_gauges s a)) = sh_effects (ag_shared a)"
  by (simp_all add: update_gauges_def Let_def split_beta on_metrics_def)

section \<open>Dry run\<close>

definition acts :: "shared \<Rightarrow> string list \<times> k8s_event list" where
  "acts sh = (kills (sh_effects sh), created_events (sh_effects sh))"

lemma acts_frame [simp]:
  "acts (log_msg l s sh) = acts sh"
  "acts (on_metrics f sh) = acts sh"
  "acts (sh\<lparr>sh_resolver := r\<rparr>) = acts sh"
  "acts (sh\<lparr>sh_metrics := mx\<rparr>) = acts sh"
  by (simp_all add: acts_def)

lemma acts_same: "sh_effects sh' = sh_effects sh \<Longrightarrow> acts sh' = acts sh"
  by (simp add: acts_def)

lemma warn_only_branch_dry:
  assumes "warn_only_branch env c ns name reason k sh = (v, k', sh')" "ki_dry_run k"
  shows "acts sh' = acts sh"
proof -
  obtain w k1 sh1 where r: "record_repeat env c ns name k sh = (w, k1, sh1)"
    by (metis prod.exhaust)
  note f = record_repeat_frame(1,4) [OF r]
  have a: "acts sh1 = acts sh" by (rule acts_same) (rule f)
  show ?thesis
  proof (cases w)
    case (Inl e)
    with assms r a show ?thesis by (auto simp: warn_only_branch_def)
  next
    case (Inr x)
    obtain msg escalated where x: "x = (msg, escalated)" by fastforce
    show ?thesis
    proof (cases "escalated \<and> repeat_kills k1")
      case True
      with assms r Inr x a show ?thesis by (auto simp: warn_only_branch_def)
    next
      case False
      with assms r Inr x a f(2) show ?thesis by (auto simp: warn_only_branch_def)
    qed
  qed
qed

lemma handle_kill_dry:
  assumes "handle_kill env c reason k sh = (v, k', sh')" "ki_dry_run k"
  shows "acts sh' = acts sh" "ki_dry_run k'" "ki_queue k' = ki_queue k" "v \<noteq> Inr True"
proof -
  obtain w sh0 where r: "resolve_pod env c sh = (w, sh0)" by fastforce
  have a0: "acts sh0 = acts sh" by (rule acts_same) (rule resolve_pod_frame(1) [OF r])
  have kr: "kill_resolved env c ns name reason k1 sh1 =
      (Inr False, k1, log_msg Critical (''[DRY-RUN] would kill '' @ ns @ ''/'' @ name @ '' '' @ em_dash @
           '' '' @ reason) sh1)" if "ki_dry_run k1" for ns name k1 sh1
    using that by (simp add: kill_resolved_def)
  have "acts sh' = acts sh \<and> ki_dry_run k' \<and> ki_queue k' = ki_queue k \<and> v \<noteq> Inr True"
  proof (cases w)
    case (Inl e)
    with assms r a0 show ?thesis by (auto simp: handle_kill_def)
  next
    case (Inr found)
    show ?thesis
    proof (cases found)
      case None
      with Inr assms r a0 show ?thesis by (auto simp: handle_kill_def)
    next
      case (Some p)
      obtain ns name where p: "p = (ns, name)" by fastforce
      obtain x k1 sh1 where b: "warn_only_branch env c ns name reason k sh0 = (x, k1, sh1)"
        by (metis prod.exhaust)
      note bf = warn_only_branch_frame [OF b] warn_only_branch_dry [OF b assms(2)]
      have d1: "ki_dry_run k1" using bf assms(2) by simp
      show ?thesis
      proof (cases "ns \<in> set (ki_exclude k)")
        case True
        with assms r Inr Some p a0 show ?thesis by (auto simp: handle_kill_def)
      next
        case ex: False
        show ?thesis
        proof (cases "ns \<in> set (ki_warn_only k)")
          case False
          with assms r Inr Some p a0 ex kr [OF assms(2)] show ?thesis by (auto simp: handle_kill_def)
        next
          case wo: True
          have a1: "acts sh1 = acts sh" using bf(5) a0 by simp
          show ?thesis
          proof (cases x)
            case (Inl e)
            with assms r \<open>w = Inr found\<close> Some p ex wo b a1 d1 bf(2) show ?thesis by (auto simp: handle_kill_def)
          next
            case x: (Inr falls)
            with assms r \<open>w = Inr found\<close> Some p ex wo b a1 d1 bf(2) kr [OF d1] show ?thesis
              by (cases falls) (auto simp: handle_kill_def)
          qed
        qed
      qed
    qed
  qed
  then show "acts sh' = acts sh" "ki_dry_run k'" "ki_queue k' = ki_queue k" "v \<noteq> Inr True" by auto
qed

section \<open>What each step of the callback touches\<close>

lemma count_detection_frame:
  assumes "count_detection env c d a = (v, a')"
  shows "sh_effects (ag_shared a') = sh_effects (ag_shared a)" "ag_killer a' = ag_killer a"
    "ag_stories a' = ag_stories a" "ag_last_decision a' = ag_last_decision a"
    "ag_armed a' = ag_armed a" "ag_policy a' = ag_policy a" "ag_kernel_enforce a' = ag_kernel_enforce a"
  using assms
  by (auto simp: count_detection_def Let_def split: prod.splits sum.splits if_splits)

lemma respond_warn_frame:
  "acts (ag_shared (respond_warn env c reason a)) = acts (ag_shared a)"
  "ag_killer (respond_warn env c reason a) = ag_killer a"
  "ag_stories (respond_warn env c reason a) = ag_stories a"
  "ag_last_decision (respond_warn env c reason a) = ag_last_decision a"
  "ag_policy (respond_warn env c reason a) = ag_policy a"
  "ag_kernel_enforce (respond_warn env c reason a) = ag_kernel_enforce a"
  by (simp_all add: respond_warn_def Let_def split: prod.split bool.split)

text \<open>An agent that cannot kill: no killer, or one in dry-run mode that never queued anything.\<close>

definition toothless :: "agent \<Rightarrow> bool" where
  "toothless a =
     (acts (ag_shared a) = ([], []) \<and>
      (case ag_killer a of None \<Rightarrow> True | Some k \<Rightarrow> ki_dry_run k \<and> ki_queue k = []))"

lemma respond_kill_toothless:
  assumes "toothless a" "respond_kill env c reason a = (v, a')"
  shows "toothless a'"
proof (cases "ag_killer a")
  case None
  with assms show ?thesis by (auto simp: respond_kill_def toothless_def)
next
  case (Some k)
  let ?sh = "log_msg Critical (msg_kill c reason) (ag_shared a)"
  obtain w k1 sh1 where h: "handle_kill (kenv.truncate env) c reason k ?sh = (w, k1, sh1)"
    by (metis prod.exhaust)
  have dry: "ki_dry_run k" "ki_queue k = []" "acts (ag_shared a) = ([], [])"
    using assms(1) Some by (simp_all add: toothless_def)
  note d = handle_kill_dry [OF h dry(1)]
  show ?thesis
  proof (cases w)
    case (Inl e)
    with assms(2) Some h d dry show ?thesis by (auto simp: respond_kill_def toothless_def)
  next
    case (Inr killed)
    with assms(2) Some h d dry show ?thesis by (auto simp: respond_kill_def toothless_def)
  qed
qed

lemma on_verdict_toothless:
  assumes "toothless a" "on_verdict env story d a = (v, a')"
  shows "toothless a'"
proof -
  let ?c = "st_cgroup_id story"
  let ?a1 = "a\<lparr>ag_last_decision := (ag_last_decision a)(?c \<mapsto> d)\<rparr>"
  obtain w a2 where c: "count_detection env ?c d ?a1 = (w, a2)" by fastforce
  have t2: "toothless a2"
    using assms(1) count_detection_frame(1,2) [OF c] by (auto simp: toothless_def acts_def)
  have tw: "toothless (respond_warn env ?c (policy_reason story) a2)"
    using t2 respond_warn_frame(1,2) by (simp add: toothless_def)
  obtain x a3 where r: "respond_kill env ?c (policy_reason story) a2 = (x, a3)" by fastforce
  note tk = respond_kill_toothless [OF t2 r]
  show ?thesis
    using assms c r t2 tw tk
    by (cases w) (auto simp: on_verdict_def Let_def toothless_def split: if_splits)
qed

section \<open>The callback in two halves\<close>

text \<open>The agent after scoring an event of a pod, and the story the verdict is about.\<close>

definition event_story :: "aenv \<Rightarrow> event \<Rightarrow> agent \<Rightarrow> attack_story" where
  "event_story env e a = snd (process (ae_clock env) e (ag_stories a))"

definition scored_agent :: "aenv \<Rightarrow> event \<Rightarrow> agent \<Rightarrow> agent" where
  "scored_agent env e a =
     (let sh = (ag_shared a)\<lparr>sh_resolver := snd (is_pod_cgroup (ke_fs env) (ev_cgroup_id e) (sh_resolver (ag_shared a)))\<rparr>
      in a\<lparr>ag_shared := (if ev_killed_in_kernel e then log_msg Critical (msg_killed_in_kernel e) sh else sh),
           ag_stories := (ag_stories a)(ev_cgroup_id e \<mapsto> event_story env e a)\<rparr>)"

definition sees_pod :: "aenv \<Rightarrow> event \<Rightarrow> agent \<Rightarrow> bool" where
  "sees_pod env e a = fst (is_pod_cgroup (ke_fs env) (ev_cgroup_id e) (sh_resolver (ag_shared a)))"

lemma on_event_host:
  "\<not> sees_pod env e a \<Longrightarrow> on_event env e a =
     (Inr (), a\<lparr>ag_shared := (ag_shared a)\<lparr>sh_resolver :=
        snd (is_pod_cgroup (ke_fs env) (ev_cgroup_id e) (sh_resolver (ag_shared a)))\<rparr>\<rparr>)"
  by (simp add: on_event_def sees_pod_def split_beta Let_def)

lemma on_event_pod:
  assumes "sees_pod env e a"
  shows "on_event env e a =
     (case evaluate (ag_policy a) (event_story env e a) of
        Inl err \<Rightarrow> (Inl err, scored_agent env e a)
      | Inr d \<Rightarrow> on_verdict env (event_story env e a) d (scored_agent env e a))"
proof (cases "ev_killed_in_kernel e")
  case True
  with assms show ?thesis
    by (simp add: on_event_def sees_pod_def event_story_def scored_agent_def split_beta Let_def
        cong: sum.case_cong)
next
  case False
  with assms show ?thesis
    by (simp add: on_event_def sees_pod_def event_story_def scored_agent_def split_beta Let_def
        cong: sum.case_cong)
qed

lemma scored_agent_frame [simp]:
  "ag_stories (scored_agent env e a) = (ag_stories a)(ev_cgroup_id e \<mapsto> event_story env e a)"
  "ag_last_decision (scored_agent env e a) = ag_last_decision a"
  "ag_armed (scored_agent env e a) = ag_armed a"
  "ag_killer (scored_agent env e a) = ag_killer a"
  "ag_policy (scored_agent env e a) = ag_policy a"
  "ag_kernel_enforce (scored_agent env e a) = ag_kernel_enforce a"
  "acts (ag_shared (scored_agent env e a)) = acts (ag_shared a)"
  "sh_metrics (ag_shared (scored_agent env e a)) = sh_metrics (ag_shared a)"
  "sh_resolver (ag_shared (scored_agent env e a)) =
     snd (is_pod_cgroup (ke_fs env) (ev_cgroup_id e) (sh_resolver (ag_shared a)))"
  by (simp_all add: scored_agent_def Let_def)

lemma on_event_toothless:
  assumes "toothless a" "on_event env e a = (v, a')"
  shows "toothless a'"
proof (cases "sees_pod env e a")
  case False
  with assms show ?thesis by (auto simp: on_event_host toothless_def)
next
  case True
  have t: "toothless (scored_agent env e a)" using assms(1) by (simp add: toothless_def)
  show ?thesis
  proof (cases "evaluate (ag_policy a) (event_story env e a)")
    case (Inl err)
    with assms(2) t True show ?thesis by (auto simp: on_event_pod)
  next
    case (Inr d)
    with assms(2) True have "on_verdict env (event_story env e a) d (scored_agent env e a) = (v, a')"
      by (simp add: on_event_pod)
    with t show ?thesis by (rule on_verdict_toothless)
  qed
qed

lemma agent_handle_toothless:
  assumes "toothless a" "agent_handle env now raw tr a = (v, tr', a')"
  shows "toothless a'"
proof -
  obtain d tr1 mx where h: "handle_event now raw tr (sh_metrics (ag_shared a)) = (d, tr1, mx)"
    by (metis prod.exhaust)
  let ?a = "a\<lparr>ag_shared := (ag_shared a)\<lparr>sh_metrics := mx\<rparr>\<rparr>"
  have t: "toothless ?a" using assms(1) by (simp add: toothless_def)
  show ?thesis
  proof (cases d)
    case None
    with assms(2) h t show ?thesis by (auto simp: agent_handle_def)
  next
    case (Some e)
    obtain w a2 where o: "on_event env e ?a = (w, a2)" by fastforce
    from on_event_toothless [OF t o] assms(2) h Some o show ?thesis
      by (auto simp: agent_handle_def)
  qed
qed

lemma main_setup_toothless:
  assumes "main_setup cf doc node now support env = Inr sys" "\<not> cf_enforce cf \<or> cf_no_k8s cf"
  shows "toothless (sys_agent sys)"
proof -
  obtain p k where p: "policy_init doc = Inr p" "make_killer cf p = Inr k"
    and sys: "ag_killer (sys_agent sys) = k" "sh_effects (ag_shared (sys_agent sys)) = []"
    by (rule main_setup_agent [OF assms(1)]) auto
  have "case k of None \<Rightarrow> True | Some k \<Rightarrow> ki_dry_run k \<and> ki_queue k = []"
    using p(2) assms(2) by (auto simp: make_killer_def new_killer_def and_then_Inr_iff split: if_splits)
  with sys show ?thesis by (simp add: toothless_def acts_def)
qed

section \<open>Containers do not touch each other\<close>

definition path_of :: "shared \<Rightarrow> int \<Rightarrow> string option" where
  "path_of sh c = map_of (path_cache (sh_resolver sh)) c"

lemma path_of_frame [simp]:
  "path_of (log_msg l s sh) c = path_of sh c"
  "path_of (on_metrics f sh) c = path_of sh c"
  "path_of (add_effect f' sh) c = path_of sh c"
  "path_of (sh\<lparr>sh_metrics := mx\<rparr>) c = path_of sh c"
  "path_of (sh\<lparr>sh_resolver := r\<rparr>) c = map_of (path_cache r) c"
  by (simp_all add: path_of_def)

text \<open>A use of the resolver for one cgroup leaves what it knows of the path of another.\<close>

lemma find_other:
  "c \<noteq> c' \<Longrightarrow> map_of (path_cache (snd (find_cgroup_path fs c' r))) c = map_of (path_cache r) c"
  by (auto simp: find_cgroup_path_def split: option.split)

interpretation path_other: resolver_invariant "\<lambda>r. map_of (path_cache r) c = x" "\<lambda>env c'. c \<noteq> c'" for c x
proof
  fix env c' core and r :: resolver
  assume c: "c \<noteq> c'" and x: "map_of (path_cache r) c = x"
  note f = find_other [OF c, of _ r]
  show "map_of (path_cache (snd (find_cgroup_path (ke_fs env) c' r))) c = x" using f x by simp
  show "map_of (path_cache (snd (resolve core (ke_fs env) c' r))) c = x"
    using f [of "ke_fs env"] x by (auto simp: resolve_def frame split_beta split: option.split)
  show "map_of (path_cache (snd (owner_of (Some (ke_core_v1 env)) (ke_fs env) c' r))) c = x"
    using f [of "ke_fs env"] x by (auto simp: owner_of_def frame split_beta split: option.split sum.split)
qed

lemma is_pod_other:
  "c \<noteq> c' \<Longrightarrow> map_of (path_cache (snd (is_pod_cgroup fs c' r))) c = map_of (path_cache r) c"
  by (auto simp: is_pod_cgroup_eq split: option.split)

lemma handle_kill_other:
  assumes "handle_kill env c' reason k sh = (v, k', sh')" "c \<noteq> c'"
  shows "path_of sh' c = path_of sh c"
  using path_other.handle_kill_keeps [OF assms] by (simp add: path_of_def)

text \<open>What a verdict and an event keep of the resolver.\<close>

context resolver_invariant
begin

lemma count_detection_keeps:
  assumes "count_detection env c d a = (v, a')" "calls (kenv.truncate env) c" "inv (sh_resolver (ag_shared a))"
  shows "inv (sh_resolver (ag_shared a'))"
proof -
  have "inv (snd (resolve (agent_api env a) (ke_fs env) c (sh_resolver (ag_shared a))))"
    using resolve_keeps [OF assms(2,3), of "agent_api env a"] by (simp add: agent_api_def kenv.defs)
  with assms(1,3) show ?thesis
    by (auto simp: count_detection_def Let_def split: prod.splits sum.splits if_splits)
qed

lemma respond_kill_keeps:
  assumes "respond_kill env c reason a = (v, a')" "calls (kenv.truncate env) c" "inv (sh_resolver (ag_shared a))"
  shows "inv (sh_resolver (ag_shared a'))"
proof (cases "ag_killer a")
  case None
  with assms show ?thesis by (auto simp: respond_kill_def)
next
  case (Some k)
  obtain w k1 sh1 where h: "handle_kill (kenv.truncate env) c reason k
      (log_msg Critical (msg_kill c reason) (ag_shared a)) = (w, k1, sh1)"
    by (metis prod.exhaust)
  have "inv (sh_resolver sh1)" by (rule handle_kill_keeps [OF h assms(2)]) (simp add: assms(3))
  with assms(1) Some h show ?thesis by (auto simp: respond_kill_def Let_def split: sum.splits if_splits)
qed

lemma respond_warn_resolver: "sh_resolver (ag_shared (respond_warn env c reason a)) = sh_resolver (ag_shared a)"
  by (simp add: respond_warn_def Let_def split: prod.split bool.split)

lemma on_verdict_keeps:
  assumes "on_verdict env story d a = (v, a')" "calls (kenv.truncate env) (st_cgroup_id story)"
    and "inv (sh_resolver (ag_shared a))"
  shows "inv (sh_resolver (ag_shared a'))"
proof -
  let ?c = "st_cgroup_id story"
  obtain w a2 where cd: "count_detection env ?c d (a\<lparr>ag_last_decision := (ag_last_decision a)(?c \<mapsto> d)\<rparr>) = (w, a2)"
    by fastforce
  have a2: "inv (sh_resolver (ag_shared a2))"
    by (rule count_detection_keeps [OF cd assms(2)]) (simp add: assms(3))
  obtain x a3 where rk: "respond_kill env ?c (policy_reason story) a2 = (x, a3)" by fastforce
  from respond_kill_keeps [OF rk assms(2) a2] a2 assms(1,3) cd rk
  show ?thesis
    by (cases w) (auto simp: on_verdict_def Let_def respond_warn_resolver split: if_splits)
qed

end

text \<open>What the agent holds about one cgroup.\<close>

definition about :: "u64 \<Rightarrow> agent \<Rightarrow> attack_story option \<times> decision option \<times> u8 option \<times> string option" where
  "about c a = (ag_stories a (uint c), ag_last_decision a (uint c), ag_armed a c, path_of (ag_shared a) (uint c))"

lemma c_uint64_uint [simp]: "c_uint64 (uint c) = c"
  by (simp add: c_uint64_def)

lemma uint_neq: "c \<noteq> c' \<Longrightarrow> uint c \<noteq> uint c'" for c c' :: u64
  by (simp add: word_uint_eq_iff)

lemma count_detection_about:
  assumes "count_detection env (uint c') d a = (v, a')" "c \<noteq> c'"
  shows "about c a' = about c a"
proof -
  have n: "uint c \<noteq> uint c'" by (rule uint_neq) (rule assms(2))
  have "path_of (ag_shared a') (uint c) = path_of (ag_shared a) (uint c)"
    using path_other.count_detection_keeps [OF assms(1) n] by (simp add: path_of_def)
  with count_detection_frame [OF assms(1)] show ?thesis by (simp add: about_def)
qed

lemma respond_warn_about:
  "c \<noteq> c' \<Longrightarrow> about c (respond_warn env (uint c') reason a) = about c a"
  by (auto simp: respond_warn_def arm_def about_def Let_def dest: hash.put_other split: option.split)

lemma respond_kill_about:
  assumes "respond_kill env (uint c') reason a = (v, a')" "c \<noteq> c'"
  shows "about c a' = about c a"
proof (cases "ag_killer a")
  case None
  with assms show ?thesis by (auto simp: respond_kill_def about_def)
next
  case (Some k)
  have n: "uint c \<noteq> uint c'" by (rule uint_neq) (rule assms(2))
  obtain w k1 sh1 where h: "handle_kill (kenv.truncate env) (uint c') reason k
      (log_msg Critical (msg_kill (uint c') reason) (ag_shared a)) = (w, k1, sh1)"
    by (metis prod.exhaust)
  have p: "path_of sh1 (uint c) = path_of (ag_shared a) (uint c)"
    using handle_kill_other [OF h n] by simp
  show ?thesis
  proof (cases w)
    case (Inl e)
    with assms Some h p show ?thesis by (auto simp: respond_kill_def about_def)
  next
    case (Inr killed)
    with assms Some h p n show ?thesis
      by (auto simp: respond_kill_def about_def forget_story_def disarm_def Let_def)
  qed
qed

lemma on_verdict_about:
  assumes "on_verdict env story d a = (v, a')" "st_cgroup_id story = uint c'" "c \<noteq> c'"
  shows "about c a' = about c a"
proof -
  have n: "uint c \<noteq> uint c'" by (rule uint_neq) (rule assms(3))
  let ?a1 = "a\<lparr>ag_last_decision := (ag_last_decision a)(uint c' \<mapsto> d)\<rparr>"
  have a1: "about c ?a1 = about c a" using n by (simp add: about_def)
  obtain w a2 where cd: "count_detection env (uint c') d ?a1 = (w, a2)" by fastforce
  have a2: "about c a2 = about c a" using count_detection_about [OF cd assms(3)] a1 by simp
  have aw: "about c (respond_warn env (uint c') (policy_reason story) a2) = about c a"
    using respond_warn_about [OF assms(3)] a2 by simp
  obtain x a3 where rk: "respond_kill env (uint c') (policy_reason story) a2 = (x, a3)" by fastforce
  have ak: "about c a3 = about c a" using respond_kill_about [OF rk assms(3)] a2 by simp
  have a0: "about c (a\<lparr>ag_last_decision := (ag_last_decision a)(uint c' := None)\<rparr>) = about c a"
    using n by (simp add: about_def)
  show ?thesis
    using assms(1,2) cd a2 aw rk ak a0
    by (cases w) (auto simp: on_verdict_def Let_def split: if_splits)
qed

definition agent_ok :: "agent \<Rightarrow> bool" where
  "agent_ok a = correlator_ok (ag_stories a)"

lemma respond_kill_stories:
  assumes "respond_kill env c reason a = (v, a')"
  shows "ag_stories a' \<in> {ag_stories a, forget_story c (ag_stories a)}"
  using assms by (auto simp: respond_kill_def Let_def split: option.splits prod.splits sum.splits)

lemma on_verdict_stories:
  assumes "on_verdict env story d a = (v, a')"
  shows "ag_stories a' \<in> {ag_stories a, forget_story (st_cgroup_id story) (ag_stories a)}"
proof -
  let ?c = "st_cgroup_id story"
  obtain w a2 where cd: "count_detection env ?c d (a\<lparr>ag_last_decision := (ag_last_decision a)(?c \<mapsto> d)\<rparr>) = (w, a2)"
    by fastforce
  have a2: "ag_stories a2 = ag_stories a" using count_detection_frame(3) [OF cd] by simp
  obtain x a3 where rk: "respond_kill env ?c (policy_reason story) a2 = (x, a3)" by fastforce
  from respond_kill_stories [OF rk] a2 assms cd rk respond_warn_frame(3) [of env ?c "policy_reason story" a2]
  show ?thesis
    by (cases w) (auto simp: on_verdict_def Let_def split: if_splits)
qed

lemma event_story_id:
  "agent_ok a \<Longrightarrow> st_cgroup_id (event_story env e a) = ev_cgroup_id e"
  by (simp add: event_story_def agent_ok_def process_story(2))

lemma on_event_about:
  assumes "on_event env e a = (v, a')" "agent_ok a" "ev_cgroup_id e = uint c'" "c \<noteq> c'"
  shows "about c a' = about c a"
proof (cases "sees_pod env e a")
  case False
  have "about c (a\<lparr>ag_shared := (ag_shared a)\<lparr>sh_resolver :=
        snd (is_pod_cgroup (ke_fs env) (ev_cgroup_id e) (sh_resolver (ag_shared a)))\<rparr>\<rparr>) = about c a"
    using assms(3) uint_neq [OF assms(4)] is_pod_other [OF uint_neq [OF assms(4)]] by (simp add: about_def path_of_def)
  with False assms(1) show ?thesis by (auto simp: on_event_host)
next
  case True
  have s: "about c (scored_agent env e a) = about c a"
    using assms(3) uint_neq [OF assms(4)] is_pod_other [OF uint_neq [OF assms(4)]] by (simp add: about_def path_of_def)
  show ?thesis
  proof (cases "evaluate (ag_policy a) (event_story env e a)")
    case (Inl err)
    with assms(1) s True show ?thesis by (auto simp: on_event_pod)
  next
    case (Inr d)
    with assms(1) True have "on_verdict env (event_story env e a) d (scored_agent env e a) = (v, a')"
      by (simp add: on_event_pod)
    from on_verdict_about [OF this _ assms(4)] event_story_id [OF assms(2)] assms(3) s show ?thesis by simp
  qed
qed


text \<open>The stories stay well formed.\<close>

lemma agent_ok_on_event:
  assumes "agent_ok a" "on_event env e a = (v, a')"
  shows "agent_ok a'"
proof (cases "sees_pod env e a")
  case False
  with assms show ?thesis by (auto simp: on_event_host agent_ok_def)
next
  case True
  have "correlator_ok (fst (process (ae_clock env) e (ag_stories a)))"
    using assms(1) correlator_ok_process by (simp add: agent_ok_def)
  then have ok: "correlator_ok ((ag_stories a)(ev_cgroup_id e \<mapsto> event_story env e a))"
    by (simp add: event_story_def)
  have "ag_stories a' \<in> {ag_stories (scored_agent env e a),
      forget_story (st_cgroup_id (event_story env e a)) (ag_stories (scored_agent env e a))}"
  proof (cases "evaluate (ag_policy a) (event_story env e a)")
    case (Inl err)
    with assms(2) True show ?thesis by (auto simp: on_event_pod)
  next
    case (Inr d)
    with assms(2) True have "on_verdict env (event_story env e a) d (scored_agent env e a) = (v, a')"
      by (simp add: on_event_pod)
    then show ?thesis by (rule on_verdict_stories)
  qed
  with ok show ?thesis by (auto simp: agent_ok_def correlator_ok_forget)
qed

section \<open>From the perf buffer to the verdict\<close>

lemma agent_handle_cases:
  assumes "agent_handle env now raw tr a = (v, tr', a')"
  obtains (noise) mx where "is_noise (ev_comm (parse_event now raw))" "v = Inr ()"
      "a' = a\<lparr>ag_shared := (ag_shared a)\<lparr>sh_metrics := mx\<rparr>\<rparr>"
  | (event) mx where "\<not> is_noise (ev_comm (parse_event now raw))"
      "on_event env (parse_event now raw) (a\<lparr>ag_shared := (ag_shared a)\<lparr>sh_metrics := mx\<rparr>\<rparr>) = (v, a')"
proof -
  obtain d tr1 mx where h: "handle_event now raw tr (sh_metrics (ag_shared a)) = (d, tr1, mx)"
    by (metis prod.exhaust)
  have d: "d = (if is_noise (ev_comm (parse_event now raw)) then None else Some (parse_event now raw))"
    using handle_event_delivers [of now raw tr "sh_metrics (ag_shared a)"] h by simp
  show ?thesis
  proof (cases "is_noise (ev_comm (parse_event now raw))")
    case True
    with assms h d show ?thesis by (intro noise [of mx]) (auto simp: agent_handle_def)
  next
    case False
    with assms h d show ?thesis by (intro event [of mx]) (auto simp: agent_handle_def split: prod.splits)
  qed
qed

lemma parse_event_id [simp]: "ev_cgroup_id (parse_event now raw) = uint (raw_cgroup_id raw)"
  by (simp add: parse_event_def)

lemma with_metrics_same [simp]:
  "about c (a\<lparr>ag_shared := (ag_shared a)\<lparr>sh_metrics := mx\<rparr>\<rparr>) = about c a"
  "agent_ok (a\<lparr>ag_shared := (ag_shared a)\<lparr>sh_metrics := mx\<rparr>\<rparr>) = agent_ok a"
  by (simp_all add: about_def path_of_def agent_ok_def)

lemma agent_handle_ok:
  assumes "agent_ok a" "agent_handle env now raw tr a = (v, tr', a')"
  shows "agent_ok a'"
  using assms(2)
proof (cases rule: agent_handle_cases)
  case (noise mx)
  with assms(1) show ?thesis by simp
next
  case (event mx)
  with assms(1) show ?thesis by (intro agent_ok_on_event [OF _ event(2)]) simp
qed

lemma agent_handle_about:
  assumes "agent_ok a" "agent_handle env now raw tr a = (v, tr', a')" "c \<noteq> raw_cgroup_id raw"
  shows "about c a' = about c a"
  using assms(2)
proof (cases rule: agent_handle_cases)
  case (noise mx)
  then show ?thesis by simp
next
  case (event mx)
  from on_event_about [OF event(2) _ _ assms(3)] assms(1) show ?thesis by simp
qed

lemma agent_handle_host:
  assumes "agent_ok a" "agent_handle env now raw tr a = (v, tr', a')"
    and "about c a = (None, None, None, None)" "search_bases (ke_fs env) (uint c) kubepods_bases = None"
  shows "about c a' = (None, None, None, None)"
proof (cases "c = raw_cgroup_id raw")
  case False
  with agent_handle_about [OF assms(1,2)] assms(3) show ?thesis by simp
next
  case c: True
  from assms(2) show ?thesis
  proof (cases rule: agent_handle_cases)
    case (noise mx)
    with assms(3) show ?thesis by simp
  next
    case (event mx)
    let ?a = "a\<lparr>ag_shared := (ag_shared a)\<lparr>sh_metrics := mx\<rparr>\<rparr>"
    have "path_of (ag_shared ?a) (uint c) = None" using assms(3) by (simp add: about_def path_of_def)
    then have n: "\<not> sees_pod env (parse_event now raw) ?a"
      "map_of (path_cache (snd (is_pod_cgroup (ke_fs env) (uint c) (sh_resolver (ag_shared ?a))))) (uint c) = None"
      using assms(4) c by (simp_all add: sees_pod_def is_pod_cgroup_eq path_of_def)
    with event(2) assms(3) c show ?thesis
      by (auto simp: on_event_host about_def path_of_def)
  qed
qed

lemma run_agent_host:
  assumes "run_agent evs tr a = (tr', a')" "agent_ok a" "about c a = (None, None, None, None)"
    and "\<forall>(env, now, raw) \<in> set evs. search_bases (ke_fs env) (uint c) kubepods_bases = None"
  shows "about c a' = (None, None, None, None)"
  using assms
proof (induction evs tr a rule: run_agent.induct)
  case (2 env now raw evs tr a)
  obtain v tr1 a1 where h: "agent_handle env now raw tr a = (v, tr1, a1)" by (metis prod.exhaust)
  have "about c a1 = (None, None, None, None)"
    using agent_handle_host [OF "2.prems"(2) h "2.prems"(3)] "2.prems"(4) by simp
  with "2.IH" [OF h [symmetric] refl refl] agent_handle_ok [OF "2.prems"(2) h] "2.prems" h
  show ?case by simp
qed simp

lemma run_agent_other:
  assumes "run_agent evs tr a = (tr', a')" "agent_ok a"
    and "\<forall>(env, now, raw) \<in> set evs. raw_cgroup_id raw \<noteq> c"
  shows "about c a' = about c a"
  using assms
proof (induction evs tr a rule: run_agent.induct)
  case (2 env now raw evs tr a)
  obtain v tr1 a1 where h: "agent_handle env now raw tr a = (v, tr1, a1)" by (metis prod.exhaust)
  have "about c a1 = about c a"
    using agent_handle_about [OF "2.prems"(2) h, of c] "2.prems"(3) by auto
  with "2.IH" [OF h [symmetric] refl refl] agent_handle_ok [OF "2.prems"(2) h] "2.prems" h
  show ?case by simp
qed simp

lemma main_setup_fresh:
  assumes "main_setup cf doc node now support env = Inr sys"
  shows "agent_ok (sys_agent sys)" "about c (sys_agent sys) = (None, None, None, None)"
    "sys_enforce sys = (cf_kernel_enforce cf \<and> support)"
    "ag_kernel_enforce (sys_agent sys) = cf_kernel_enforce cf"
  by (rule main_setup_agent [OF assms],
      auto simp: agent_ok_def correlator_ok_empty about_def path_of_def new_resolver_def)+

section \<open>Verdicts\<close>

lemma respond_kill_lost:
  assumes "respond_kill env c reason a = (Inl err, a')"
  shows "ag_last_decision a' = ag_last_decision a" "ag_stories a' = ag_stories a"
    "ag_policy a' = ag_policy a"
  using assms by (auto simp: respond_kill_def Let_def split: option.splits prod.splits sum.splits if_splits)

text \<open>A verdict that raised is remembered as delivered.\<close>

lemma on_verdict_lost:
  assumes "on_verdict env story d a = (Inl err, a')"
  shows "ag_last_decision a' (st_cgroup_id story) = Some d"
proof -
  let ?c = "st_cgroup_id story"
  obtain w a2 where cd: "count_detection env ?c d (a\<lparr>ag_last_decision := (ag_last_decision a)(?c \<mapsto> d)\<rparr>) = (w, a2)"
    by fastforce
  have a2: "ag_last_decision a2 ?c = Some d" using count_detection_frame(4) [OF cd] by simp
  show ?thesis
  proof (cases w)
    case (Inl e)
    with assms cd a2 show ?thesis by (auto simp: on_verdict_def Let_def split: if_splits)
  next
    case (Inr u)
    with assms cd have "respond_kill env ?c (policy_reason story) a2 = (Inl err, a')"
      by (auto simp: on_verdict_def Let_def split: if_splits)
    with a2 respond_kill_lost(1) [OF this] show ?thesis by simp
  qed
qed

lemma on_verdict_repeated:
  "ag_last_decision a (st_cgroup_id story) = Some d \<Longrightarrow> d \<noteq> ALLOW \<Longrightarrow> on_verdict env story d a = (Inr (), a)"
  by (simp add: on_verdict_def)

lemma on_verdict_warn_arms:
  assumes "on_verdict env story WARN a = (Inr (), a')" "ag_last_decision a (st_cgroup_id story) \<noteq> Some WARN"
    and "ag_kernel_enforce a" "accepts_all (ae_accepts env)"
  shows "ag_armed a' (c_uint64 (st_cgroup_id story)) = Some ARMED_KILL"
proof -
  let ?c = "st_cgroup_id story"
  obtain w a2 where cd: "count_detection env ?c WARN (a\<lparr>ag_last_decision := (ag_last_decision a)(?c \<mapsto> WARN)\<rparr>) = (w, a2)"
    by fastforce
  have ke: "ag_kernel_enforce a2" using count_detection_frame(7) [OF cd] assms(3) by simp
  have "w \<noteq> Inl e" for e using assms(1,2) cd by (auto simp: on_verdict_def Let_def)
  then have "a' = respond_warn env ?c (policy_reason story) a2"
    using assms(1,2) cd by (cases w) (auto simp: on_verdict_def Let_def)
  with ke assms(4) show ?thesis
    by (simp add: respond_warn_def arm_def table_put_def accepts_all_def tracer_ARMED_KILL_def
        ARMED_KILL_def)
qed


text \<open>A cached pod: the resolver answers without touching the file system or the API.\<close>

definition knows_pod :: "shared \<Rightarrow> int \<Rightarrow> string \<Rightarrow> string \<Rightarrow> string \<Rightarrow> bool" where
  "knows_pod sh c p ns name =
     (map_of (path_cache (sh_resolver sh)) c = Some p \<and>
      (\<exists>uid. extract_pod_uid p = Some uid \<and> map_of (pod_cache (sh_resolver sh)) uid = Some (ns, name)))"

lemma knows_pod_resolve:
  "knows_pod sh c p ns name \<Longrightarrow> resolve core fs c (sh_resolver sh) = (Inr (Some (ns, name)), sh_resolver sh)"
  by (auto simp: knows_pod_def intro: resolve_cached)

lemma knows_pod_is_pod:
  "knows_pod sh c p ns name \<Longrightarrow> is_pod_cgroup fs c (sh_resolver sh) = (True, sh_resolver sh)"
  by (simp add: knows_pod_def is_pod_cgroup_eq)

lemma knows_pod_frame:
  "sh_resolver sh' = sh_resolver sh \<Longrightarrow> knows_pod sh' c p ns name = knows_pod sh c p ns name"
  by (simp add: knows_pod_def)

text \<open>The killer may kill in the namespace and the process files can be written.\<close>

definition may_kill :: "aenv \<Rightarrow> killer \<Rightarrow> string \<Rightarrow> string \<Rightarrow> bool" where
  "may_kill env k ns p =
     (\<not> ki_dry_run k \<and> ns \<notin> set (ki_exclude k) \<and> ns \<notin> set (ki_warn_only k) \<and>
      fs_kill (ke_fs env) (path_join p ''cgroup.kill'') = KillWritable)"

lemma respond_kill_succeeds:
  assumes "respond_kill env c reason a = (v, a')" "ag_killer a = Some k"
    and "knows_pod (ag_shared a) c p ns name" "may_kill env k ns p"
  shows "v = Inr ()" "kills (sh_effects (ag_shared a')) = kills (sh_effects (ag_shared a)) @ [p]"
    "ag_stories a' c = None" "ag_last_decision a' c = None" "ag_armed a' (c_uint64 c) = None"
proof -
  let ?sh = "log_msg Critical (msg_kill c reason) (ag_shared a)"
  let ?env = "kenv.truncate env"
  obtain w k1 sh1 where h: "handle_kill ?env c reason k ?sh = (w, k1, sh1)"
    by (metis prod.exhaust)
  have kn: "knows_pod ?sh c p ns name" using assms(3) by (simp add: knows_pod_def)
  have fs: "ke_fs ?env = ke_fs env" by (simp add: kenv.truncate_def)
  have r: "resolve_pod ?env c ?sh = (Inr (Some (ns, name)), ?sh)"
    unfolding resolve_pod_def knows_pod_resolve [OF kn] by simp
  obtain p' where s: "w = Inr True" "map_of (path_cache (sh_resolver sh1)) c = Some p'"
      "sh_resolver sh1 = sh_resolver (snd (resolve_pod ?env c ?sh))"
      "fs_kill (ke_fs ?env) (path_join p' ''cgroup.kill'') = KillWritable \<Longrightarrow>
         kills (sh_effects sh1) = kills (sh_effects ?sh) @ [p']"
    using handle_kill_succeeds [OF _ _ _ _ h, of ns name] assms(4) r by (auto simp: may_kill_def)
  have "p' = p" using s(2,3) kn r by (simp add: knows_pod_def)
  with s(4) assms(4) have "kills (sh_effects sh1) = kills (sh_effects (ag_shared a)) @ [p]"
    by (simp add: may_kill_def fs)
  with assms(1,2) h s(1) show "v = Inr ()"
    "kills (sh_effects (ag_shared a')) = kills (sh_effects (ag_shared a)) @ [p]"
    "ag_stories a' c = None" "ag_last_decision a' c = None" "ag_armed a' (c_uint64 c) = None"
    by (auto simp: respond_kill_def Let_def forget_story_def disarm_def)
qed

lemma on_verdict_kill_succeeds:
  assumes "on_verdict env story KILL a = (v, a')" "st_cgroup_id story = c"
    and "ag_last_decision a c \<noteq> Some KILL" "ag_killer a = Some k"
    and "knows_pod (ag_shared a) c p ns name" "may_kill env k ns p"
  shows "v = Inr ()" "kills (sh_effects (ag_shared a')) = kills (sh_effects (ag_shared a)) @ [p]"
    "ag_stories a' c = None" "ag_last_decision a' c = None" "ag_armed a' (c_uint64 c) = None"
proof -
  let ?a1 = "a\<lparr>ag_last_decision := (ag_last_decision a)(c \<mapsto> KILL)\<rparr>"
  obtain w a2 where cd: "count_detection env c KILL ?a1 = (w, a2)" by fastforce
  have kn1: "knows_pod (ag_shared ?a1) c p ns name" using assms(5) by simp
  have w: "w = Inr () \<and> sh_resolver (ag_shared a2) = sh_resolver (ag_shared a)"
  proof (cases "sh_metrics (ag_shared a)")
    case None
    with cd show ?thesis by (auto simp: count_detection_def)
  next
    case (Some m)
    with cd knows_pod_resolve [OF kn1, of "agent_api env ?a1" "ke_fs env"] show ?thesis
      by (auto simp: count_detection_def)
  qed
  note f = count_detection_frame [OF cd]
  have r: "respond_kill env c (policy_reason story) a2 = (v, a')"
    using assms(1-3) cd w by (simp add: on_verdict_def Let_def)
  have kn2: "knows_pod (ag_shared a2) c p ns name" using w assms(5) by (simp add: knows_pod_def)
  have k2: "ag_killer a2 = Some k" using f(2) assms(4) by simp
  note s = respond_kill_succeeds [OF r k2 kn2 assms(6)]
  from s f(1) show "v = Inr ()" "kills (sh_effects (ag_shared a')) = kills (sh_effects (ag_shared a)) @ [p]"
    "ag_stories a' c = None" "ag_last_decision a' c = None" "ag_armed a' (c_uint64 c) = None"
    by simp_all
qed

lemma on_event_kill_succeeds:
  assumes "on_event env e a = (v, a')" "agent_ok a" "ev_cgroup_id e = c"
    and "evaluate (ag_policy a) (event_story env e a) = Inr KILL"
    and "ag_last_decision a c \<noteq> Some KILL" "ag_killer a = Some k"
    and "knows_pod (ag_shared a) c p ns name" "may_kill env k ns p"
  shows "v = Inr ()" "kills (sh_effects (ag_shared a')) = kills (sh_effects (ag_shared a)) @ [p]"
    "ag_stories a' c = None" "ag_last_decision a' c = None" "ag_armed a' (c_uint64 c) = None"
proof -
  note ip = knows_pod_is_pod [OF assms(7), of "ke_fs env"]
  have s: "sees_pod env e a" using ip assms(3) by (simp add: sees_pod_def)
  have v: "on_verdict env (event_story env e a) KILL (scored_agent env e a) = (v, a')"
    using assms(1,4) s by (simp add: on_event_pod)
  have id: "st_cgroup_id (event_story env e a) = c" using event_story_id [OF assms(2)] assms(3) by simp
  have kn: "knows_pod (ag_shared (scored_agent env e a)) c p ns name"
    using ip assms(3,7) by (simp add: knows_pod_def)
  have acts: "kills (sh_effects (ag_shared (scored_agent env e a))) = kills (sh_effects (ag_shared a))"
    using scored_agent_frame(7) [of env e a] by (simp add: acts_def)
  note r = on_verdict_kill_succeeds [OF v id _ _ kn assms(8)]
  from r acts assms(5,6) show "v = Inr ()" "kills (sh_effects (ag_shared a')) = kills (sh_effects (ag_shared a)) @ [p]"
    "ag_stories a' c = None" "ag_last_decision a' c = None" "ag_armed a' (c_uint64 c) = None"
    by simp_all
qed


text \<open>A red line is conclusive: the event of its probe, once parsed, is worth at least 100 points.\<close>

lemma red_line_score:
  assumes "response sc = RedLine" "raw_syscall_type raw = type_code sc"
  shows "100 \<le> score_event (parse_event now raw)"
proof -
  have "ev_syscall (parse_event now raw) = syscall_label sc"
    using assms(2) by (simp add: parse_event_def syscall_name_of_code)
  moreover have "dict_get suspicious_syscalls (syscall_label sc) 0 = 100"
    using assms(1) by (cases sc) (simp_all add: suspicious_syscalls_def dict_get_def)
  ultimately show ?thesis
    using score_path_nonneg [of "ev_filename (parse_event now raw)"] by (simp add: score_event_def)
qed

lemma conclusive_record_kills:
  assumes "agent_handle env now raw tr a = (v, tr', a')" and "agent_ok a"
    and "\<not> is_noise (decode_replace (c_string 16 (raw_comm raw)))"
    and "numeric (kill_threshold (ag_policy a)) = Some threshold"
    and "threshold \<le> of_int (score_event (parse_event now raw))"
    and "ae_clock env - correlation_window_sec \<le> of_int (uint (raw_ktime raw)) / 10 ^ 9"
    and "ag_last_decision a (uint (raw_cgroup_id raw)) \<noteq> Some KILL"
    and "ag_killer a = Some k" and "may_kill env k ns p"
    and "knows_pod (ag_shared a) (uint (raw_cgroup_id raw)) p ns name"
  shows "v = Inr ()" "kills (sh_effects (ag_shared a')) = kills (sh_effects (ag_shared a)) @ [p]"
    "ag_stories a' (uint (raw_cgroup_id raw)) = None" "ag_last_decision a' (uint (raw_cgroup_id raw)) = None"
    "ag_armed a' (raw_cgroup_id raw) = None"
proof -
  let ?c = "uint (raw_cgroup_id raw)"
  have "v = Inr () \<and> kills (sh_effects (ag_shared a')) = kills (sh_effects (ag_shared a)) @ [p] \<and>
      ag_stories a' ?c = None \<and> ag_last_decision a' ?c = None \<and> ag_armed a' (raw_cgroup_id raw) = None"
    using assms(1)
  proof (cases rule: agent_handle_cases)
    case (noise mx)
    with assms(3) show ?thesis by (simp add: parse_event_def)
  next
    case (event mx)
    let ?a = "a\<lparr>ag_shared := (ag_shared a)\<lparr>sh_metrics := mx\<rparr>\<rparr>"
    have "ae_clock env - correlation_window_sec \<le> ev_ts (parse_event now raw)"
      using assms(6) by (simp add: parse_event_def)
    then have "evaluate (ag_policy ?a) (event_story env (parse_event now raw) ?a) = Inr KILL"
      using assms(2,4,5) unfolding event_story_def by (intro fresh_event_kills) (simp_all add: agent_ok_def)
    moreover have "knows_pod (ag_shared ?a) ?c p ns name" using assms(10) by (simp add: knows_pod_def)
    ultimately show ?thesis
      using on_event_kill_succeeds [OF event(2), of ?c k p ns name] assms(2,7-9) by simp
  qed
  then show "v = Inr ()" "kills (sh_effects (ag_shared a')) = kills (sh_effects (ag_shared a)) @ [p]"
    "ag_stories a' ?c = None" "ag_last_decision a' ?c = None" "ag_armed a' (raw_cgroup_id raw) = None"
    by simp_all
qed

section \<open>A small deployment\<close>

text \<open>The shipped policy, the killer of the demo cluster and one pod, \<open>prod/attacker\<close>.\<close>

definition demo_policy :: policy where
  "demo_policy =
     \<lparr>warn_threshold = YInt 40, kill_threshold = YInt 90,
      exclude_namespaces = YList [YStr ''kubewarden-system''],
      warn_only_namespaces = YList [YStr ''kube-system''],
      repeat_enabled = YBool True, repeat_window_sec = 600, repeat_threshold = 3,
      repeat_action = YStr ''alert''\<rparr>"

definition demo_agent :: "resolver \<Rightarrow> agent" where
  "demo_agent r =
     \<lparr>ag_policy = demo_policy, ag_killer = Some demo_killer, ag_kernel_enforce = True,
      ag_stories = Map.empty, ag_last_decision = Map.empty,
      ag_shared = \<lparr>sh_resolver = r, sh_metrics = None, sh_effects = []\<rparr>, ag_armed = Map.empty\<rparr>"

definition demo_aenv :: "pod_api \<Rightarrow> cgroupfs \<Rightarrow> aenv" where
  "demo_aenv api fs =
     \<lparr>ke_core_v1 = api, ke_fs = fs, ke_now = 0, ke_create_event = (\<lambda>n e. Inr ()), ke_str = (\<lambda>e. []),
      ae_clock = 5, ae_accepts = always_accepts\<rparr>"

definition demo_raw :: "string \<Rightarrow> u8 \<Rightarrow> event_t" where
  "demo_raw comm type =
     zero_event\<lparr>raw_cgroup_id := 108000, raw_comm := comm, raw_ktime := 5000000000, raw_syscall_type := type\<rparr>"

lemma demo_agent_ok: "agent_ok (demo_agent r)"
  by (simp add: agent_ok_def demo_agent_def correlator_ok_empty)

lemma demo_knows_pod: "knows_pod (ag_shared (demo_agent (demo_resolved ''prod''))) 108000 demo_path ''prod'' ''attacker''"
  by (simp add: knows_pod_def demo_agent_def demo_resolved_def demo_path_def demo_uid)

lemma demo_setns_kills:
  "evaluate (ag_policy (demo_agent r)) (event_story (demo_aenv api fs) (demo_event 108000 ''nsenter'' ''setns'' [] 5) (demo_agent r))
     = Inr KILL"
proof -
  have "(90 :: rat) \<le> of_int (score_event (demo_event 108000 ''nsenter'' ''setns'' [] 5))"
    by (simp add: score_eval demo_event_def)
  then show ?thesis
    unfolding event_story_def
    by (intro fresh_event_kills [where k = 90])
      (simp_all add: demo_agent_def demo_policy_def correlator_ok_empty numeric_def demo_aenv_def
        demo_event_def correlation_window_sec_def)
qed

text \<open>The shipped policy starts in every mode.\<close>

lemma shipped_setup: "\<exists>sys. main_setup cf shipped_config node now support env = Inr sys"
  by (simp add: main_setup_def launch_def shipped_policy make_killer_def new_killer_def start_cgroup_sync_def
      new_sync_def sync_start_def namespace_set_def truthy_def split_beta Let_def)

lemma demo_classes:
  assumes "main_setup cf document node now support (demo_env ns) = Inr sys"
  shows "sys_classes sys = Map.empty"
proof -
  have "sys_classes sys = snd (snd (snd (prefill_host_classes (se_accepts (demo_env ns)) (se_fs (demo_env ns)) Map.empty)))"
    by (rule main_setup_agent [OF assms])
  then show ?thesis
    by (simp add: prefill_host_classes_def prefill_tops_dirs demo_env_def demo_host_paths [unfolded host_paths_def])
qed

section \<open>Properties\<close>

text \<open>C7. Host processes are never judged: in any run of the agent, a cgroup that no walk finds under
  \<open>kubepods\<close> gets no story, no decision, no place in the resolver's path cache and is never armed.\<close>
theorem host_processes_never_judged:
  assumes "main_setup cf document node now support env = Inr sys"
    and "run_agent evs (sys_tracer sys) (sys_agent sys) = (tr', a')"
    and "\<forall>(env, now_ns, raw) \<in> set evs. search_bases (ke_fs env) (uint c) kubepods_bases = None"
  shows "ag_stories a' (uint c) = None \<and> ag_last_decision a' (uint c) = None \<and> ag_armed a' c = None \<and>
     map_of (path_cache (sh_resolver (ag_shared a'))) (uint c) = None"
  using run_agent_host [OF assms(2) main_setup_fresh(1,2) [OF assms(1)] assms(3)]
  by (simp add: about_def path_of_def)

text \<open>Witness of C7: a \<open>mount\<close> by a daemon outside every pod.\<close>
theorem host_processes_never_judged_witness:
  "\<exists>sys tr' a'. main_setup \<lparr>cf_enforce = True, cf_no_k8s = False, cf_kernel_enforce = True,
       cf_no_kernel_filter = True, cf_sync_interval = 5, cf_metrics_port = 0\<rparr> shipped_config ''worker-1'' 0 True (demo_env ''prod'')
       = Inr sys \<and>
     run_agent [(demo_aenv (demo_api ''prod'') \<lparr>fs_top = [], fs_ino = (\<lambda>p. Some 1), fs_kill = (\<lambda>p. KillMissing)\<rparr>,
         6000000000, demo_raw ''snapd'' 3)] (sys_tracer sys) (sys_agent sys) = (tr', a') \<and>
     ag_stories a' 108000 = None"
proof -
  let ?cf = "\<lparr>cf_enforce = True, cf_no_k8s = False, cf_kernel_enforce = True,
       cf_no_kernel_filter = True, cf_sync_interval = 5, cf_metrics_port = 0\<rparr>"
  let ?fs = "\<lparr>fs_top = [], fs_ino = (\<lambda>p. Some 1), fs_kill = (\<lambda>p. KillMissing)\<rparr>"
  obtain sys where sys: "main_setup ?cf shipped_config ''worker-1'' 0 True (demo_env ''prod'') = Inr sys"
    using shipped_setup by blast
  obtain tr' a' where run: "run_agent [(demo_aenv (demo_api ''prod'') ?fs, 6000000000, demo_raw ''snapd'' 3)]
       (sys_tracer sys) (sys_agent sys) = (tr', a')"
    by fastforce
  have "\<forall>(env, now_ns, raw) \<in> set [(demo_aenv (demo_api ''prod'') ?fs, 6000000000 :: int, demo_raw ''snapd'' 3)].
      search_bases (ke_fs env) (uint (108000 :: u64)) kubepods_bases = None"
    by (simp add: demo_aenv_def kubepods_bases_def walk_base_def top_dir_def)
  from host_processes_never_judged [OF sys run this] sys run show ?thesis by auto
qed


text \<open>C13. Containers do not touch each other: events of other cgroups leave a cgroup's story, its last
  decision, its arming and its cached path exactly as they were, kills and failures included.\<close>
theorem containers_isolated:
  assumes "run_agent evs tr a = (tr', a')" and "correlator_ok (ag_stories a)"
    and "\<forall>(env, now_ns, raw) \<in> set evs. raw_cgroup_id raw \<noteq> c"
  shows "ag_stories a' (uint c) = ag_stories a (uint c) \<and>
     ag_last_decision a' (uint c) = ag_last_decision a (uint c) \<and> ag_armed a' c = ag_armed a c \<and>
     map_of (path_cache (sh_resolver (ag_shared a'))) (uint c)
       = map_of (path_cache (sh_resolver (ag_shared a))) (uint c)"
  using run_agent_other [OF assms(1) _ assms(3)] assms(2)
  by (simp add: about_def path_of_def agent_ok_def)

text \<open>Witness of C13: the kill of one pod, seen from another cgroup.\<close>
theorem containers_isolated_witness:
  "\<exists>tr' a'. run_agent [(demo_aenv (demo_api ''prod'') demo_fs, 6000000000, demo_raw ''nsenter'' 4)]
       (snd (tracer_init True True 0)) (demo_agent (demo_resolved ''prod'')) = (tr', a') \<and>
     ag_stories a' (uint (7 :: u64)) = None"
proof -
  obtain tr' a' where run: "run_agent [(demo_aenv (demo_api ''prod'') demo_fs, 6000000000, demo_raw ''nsenter'' 4)]
       (snd (tracer_init True True 0)) (demo_agent (demo_resolved ''prod'')) = (tr', a')"
    by fastforce
  have "correlator_ok (ag_stories (demo_agent (demo_resolved ''prod'')))"
    by (simp add: demo_agent_def correlator_ok_empty)
  moreover have "\<forall>(env, now_ns, raw) \<in> set [(demo_aenv (demo_api ''prod'') demo_fs, 6000000000 :: int, demo_raw ''nsenter'' 4)].
      raw_cgroup_id raw \<noteq> 7"
    by (simp add: demo_raw_def)
  ultimately have "ag_stories a' (uint (7 :: u64)) = ag_stories (demo_agent (demo_resolved ''prod'')) (uint (7 :: u64))"
    using containers_isolated [OF run] by blast
  with run show ?thesis by (auto simp: demo_agent_def)
qed

text \<open>C10. The feedback loop closes: with \<open>--kernel-enforce\<close>, once an event turned the verdict on a
  container into WARN and the armed table took the write, the enforcing eBPF program answers the
  next chroot, mount, fsmount, move_mount or ptrace from that container with SIGKILL, unless the
  caller is a container runtime or the cgroup's class forbids it.\<close>
theorem warning_arms_kernel:
  assumes "correlator_ok (ag_stories a)" and "sees_pod env e a"
    and "evaluate (ag_policy a) (event_story env e a) = Inr WARN"
    and "ag_last_decision a (ev_cgroup_id e) \<noteq> Some WARN"
    and "ag_kernel_enforce a" and "accepts_all (ae_accepts env)"
    and "on_event env e a = (Inr (), a')"
    and "ev_cgroup_id e = uint (t_cgroup_id t)" and "response sc = WhenArmed"
    and "\<not> is_container_runtime (t_comm t)"
    and "classes (t_cgroup_id t) \<in> {None, Some CLASS_POD}"
  shows "signals (run_probe sc True \<lparr>armed_cgroups = ag_armed a', cgroup_class = classes\<rparr> t fam arg) = [9]"
proof -
  have id: "st_cgroup_id (event_story env e a) = ev_cgroup_id e"
    using event_story_id assms(1) by (simp add: agent_ok_def)
  have "on_verdict env (event_story env e a) WARN (scored_agent env e a) = (Inr (), a')"
    using assms(2,3,7) by (simp add: on_event_pod)
  then have armed: "ag_armed a' (t_cgroup_id t) = Some ARMED_KILL"
    using on_verdict_warn_arms [of env "event_story env e a" "scored_agent env e a" a'] assms(4-6,8) id
    by simp
  have "sc \<noteq> Connect" using assms(9) by auto
  with armed assms(9-11) show ?thesis
    by (auto simp: run_probe_spec delivered_def should_skip_def kernel_kills_def response_due_def
        kill_allowed_def Kernel.classes perf_submit_def)
qed


text \<open>Witness of C10: after a read of \<open>/etc/shadow\<close>, the container's \<open>chroot\<close>.\<close>
theorem warning_arms_kernel_witness:
  "\<exists>a'. on_event (demo_aenv (demo_api ''prod'') demo_fs) (demo_event 108000 ''cat'' ''openat'' ''/etc/shadow'' 5)
       (demo_agent (demo_resolved ''prod'')) = (Inr (), a') \<and>
     signals (run_probe Chroot True \<lparr>armed_cgroups = ag_armed a', cgroup_class = Map.empty\<rparr>
       \<lparr>t_ktime = 6, t_pid_tgid = 0, t_cgroup_id = 108000, t_comm = ''sh'', t_ppid = 1\<rparr> 0 ''/host'') = [9]"
proof -
  let ?env = "demo_aenv (demo_api ''prod'') demo_fs"
  let ?e = "demo_event 108000 ''cat'' ''openat'' ''/etc/shadow'' 5"
  let ?a = "demo_agent (demo_resolved ''prod'')"
  let ?t = "\<lparr>t_ktime = 6, t_pid_tgid = 0, t_cgroup_id = 108000, t_comm = ''sh'', t_ppid = 1\<rparr>"
  have score: "score_event ?e = 60" by (simp add: score_eval demo_event_def)
  have warn: "evaluate (ag_policy ?a) (event_story ?env ?e ?a) = Inr WARN"
    by (simp add: event_story_def process_snd score demo_agent_def story_add_def evict_old_def new_story_def
        demo_aenv_def correlation_window_sec_def evaluate_def demo_policy_def py_ge_def numeric_def)
      (simp add: demo_event_def)
  have s: "sees_pod ?env ?e ?a"
    using knows_pod_is_pod [OF demo_knows_pod] by (simp add: sees_pod_def demo_event_def)
  have id: "st_cgroup_id (event_story ?env ?e ?a) = 108000"
    using event_story_id [OF demo_agent_ok] by (simp add: demo_event_def)
  have "\<exists>a'. on_verdict ?env (event_story ?env ?e ?a) WARN (scored_agent ?env ?e ?a) = (Inr (), a')"
    by (simp add: on_verdict_def id count_detection_def) (simp add: demo_agent_def)
  then obtain a' where a': "on_event ?env ?e ?a = (Inr (), a')"
    using on_event_pod [OF s] warn by auto
  have "signals (run_probe Chroot True \<lparr>armed_cgroups = ag_armed a', cgroup_class = Map.empty\<rparr> ?t 0 ''/host'') = [9]"
    by (rule warning_arms_kernel [OF _ s warn _ _ _ a'])
      (simp_all add: demo_agent_def correlator_ok_empty accepts_all_def always_accepts_def demo_aenv_def
        demo_event_def is_container_runtime_iff)
  with a' show ?thesis by blast
qed

end
