(* ===== verification/Node.thy ===== *)
theory Node
  imports Agent
begin

text \<open>
  One node of the cluster: the eBPF program, its perf buffers, the agent and the classifier, running
  against each other. A system call of any task, the delivery of a record, the loss of records, a
  scan and a refresh of the gauges are the steps, in any order; what each step meets outside is the
  step's choice. There is one perf buffer per CPU, so a record may be delivered before an older one.
\<close>

section \<open>States and steps\<close>

text \<open>
  \<open>nd_buffer\<close> holds the records submitted and not yet delivered. \<open>nd_submitted\<close> and \<open>nd_signals\<close>
  record what the program did: the number of records it submitted, and for every SIGKILL the system
  call and the cgroup of the task.
\<close>

record node =
  nd_agent :: agent
  nd_tracer :: tracer
  nd_enforce :: bool
  nd_classes :: table
  nd_sync :: "cgroup_sync option"
  nd_buffer :: "event_t list"
  nd_submitted :: int
  nd_signals :: "(syscall \<times> u64) list"

definition node_init :: "system \<Rightarrow> node" where
  "node_init sys =
     \<lparr>nd_agent = sys_agent sys, nd_tracer = sys_tracer sys, nd_enforce = sys_enforce sys,
      nd_classes = sys_classes sys, nd_sync = sys_sync sys, nd_buffer = [], nd_submitted = 0,
      nd_signals = []\<rparr>"

text \<open>The maps the eBPF program reads are the tables user space writes.\<close>

definition node_maps :: "node \<Rightarrow> kmaps" where
  "node_maps n = \<lparr>armed_cgroups = ag_armed (nd_agent n), cgroup_class = nd_classes n\<rparr>"

definition node_probe :: "syscall \<Rightarrow> task \<Rightarrow> u16 \<Rightarrow> string \<Rightarrow> node \<Rightarrow> node" where
  "node_probe sc t fam arg n =
     (let out = run_probe sc (nd_enforce n) (node_maps n) t fam arg;
          records = (case submitted out of None \<Rightarrow> [] | Some raw \<Rightarrow> [raw])
      in n\<lparr>nd_buffer := nd_buffer n @ records,
           nd_submitted := nd_submitted n + int (length records),
           nd_signals := nd_signals n @ map (\<lambda>s. (sc, t_cgroup_id t)) (signals out)\<rparr>)"

definition agent_lost :: "int \<Rightarrow> tracer \<Rightarrow> agent \<Rightarrow> tracer \<times> agent" where
  "agent_lost count tr a =
     (let (tr, mx) = handle_lost count tr (sh_metrics (ag_shared a))
      in (tr, a\<lparr>ag_shared := (ag_shared a)\<lparr>sh_metrics := mx\<rparr>\<rparr>))"

inductive node_step :: "node \<Rightarrow> node \<Rightarrow> bool" where
  probe: "node_step n (node_probe sc t fam arg n)"
| deliver: "nd_buffer n = before @ raw # after \<Longrightarrow>
     agent_handle env now_ns raw (nd_tracer n) (nd_agent n) = (v, tr, a) \<Longrightarrow>
     node_step n (n\<lparr>nd_buffer := before @ after, nd_tracer := tr, nd_agent := a\<rparr>)"
| lose: "nd_buffer n = before @ lost @ after \<Longrightarrow>
     agent_lost (int (length lost)) (nd_tracer n) (nd_agent n) = (tr, a) \<Longrightarrow>
     node_step n (n\<lparr>nd_buffer := before @ after, nd_tracer := tr, nd_agent := a\<rparr>)"
| scan: "nd_sync n = Some s \<Longrightarrow>
     scan_once env s (nd_classes n) (Some (sh_resolver (ag_shared (nd_agent n)))) = (v, s', classes, Some r) \<Longrightarrow>
     node_step n (n\<lparr>nd_sync := Some s', nd_classes := classes,
       nd_agent := (nd_agent n)\<lparr>ag_shared := (ag_shared (nd_agent n))\<lparr>sh_resolver := r\<rparr>\<rparr>\<rparr>)"
| gauges: "node_step n (n\<lparr>nd_agent := update_gauges (nd_sync n) (nd_agent n)\<rparr>)"

inductive_cases node_stepE: "node_step n n'"

section \<open>The log only grows\<close>

definition grows :: "shared \<Rightarrow> shared \<Rightarrow> bool" where
  "grows sh sh' = prefix (sh_effects sh) (sh_effects sh')"

definition adds :: "shared \<Rightarrow> effect \<Rightarrow> shared \<Rightarrow> bool" where
  "adds sh f sh' = (\<exists>xs ys. sh_effects sh' = sh_effects sh @ xs @ f # ys)"

lemma grows_same [simp]: "sh_effects sh' = sh_effects sh \<Longrightarrow> grows sh sh'"
  by (simp add: grows_def)

lemma grows_trans [trans]: "grows sh sh1 \<Longrightarrow> grows sh1 sh2 \<Longrightarrow> grows sh sh2"
  by (auto simp: grows_def)

lemma grows_add [simp]:
  "grows sh (add_effect f sh)" "grows sh (log_msg l s sh)"
  by (simp_all add: grows_def log_msg_def)

lemma grows_frame [simp]:
  "grows sh (on_metrics f sh') = grows sh sh'"
  "grows sh (sh'\<lparr>sh_resolver := r\<rparr>) = grows sh sh'"
  "grows sh (sh'\<lparr>sh_metrics := mx\<rparr>) = grows sh sh'"
  "grows (sh\<lparr>sh_resolver := r\<rparr>) sh' = grows sh sh'"
  "grows (sh\<lparr>sh_metrics := mx\<rparr>) sh' = grows sh sh'"
  by (simp_all add: grows_def)

lemma grows_log [intro!]: "grows sh sh' \<Longrightarrow> grows sh (log_msg l s sh')"
  by (auto simp: grows_def log_msg_def)

lemma grows_effect [intro!]: "grows sh sh' \<Longrightarrow> grows sh (add_effect f sh')"
  by (auto simp: grows_def)

lemma adds_log [simp]: "grows sh sh' \<Longrightarrow> adds sh (Log l s) (log_msg l s sh')"
  by (fastforce simp: adds_def grows_def log_msg_def elim: prefixE)

lemma adds_grows: "adds sh f sh' \<Longrightarrow> grows sh sh'"
  by (auto simp: adds_def grows_def)

lemma adds_mono:
  assumes "grows sh sh1" "adds sh1 f sh2" "grows sh2 sh3"
  shows "adds sh f sh3"
proof -
  obtain a b c d where "sh_effects sh1 = sh_effects sh @ a" "sh_effects sh2 = sh_effects sh1 @ b @ f # c"
    "sh_effects sh3 = sh_effects sh2 @ d"
    using assms unfolding grows_def adds_def prefix_def by blast
  then have "sh_effects sh3 = sh_effects sh @ (a @ b) @ f # (c @ d)" by simp
  then show ?thesis unfolding adds_def by blast
qed

lemma emit_event_grows:
  "emit_event env ns name reason sh = (v, sh') \<Longrightarrow> grows sh sh'"
  by (auto simp: emit_event_def Let_def split: sum.splits)

lemma record_repeat_grows:
  "record_repeat env c ns name k sh = (v, k', sh') \<Longrightarrow> grows sh sh'"
  by (simp add: record_repeat_frame(1))

lemma warn_only_branch_grows:
  assumes "warn_only_branch env c ns name reason k sh = (v, k', sh')"
  shows "grows sh sh'"
proof -
  obtain w k1 sh1 where r: "record_repeat env c ns name k sh = (w, k1, sh1)"
    by (metis prod.exhaust)
  have e: "grows sh sh1" by (rule record_repeat_grows [OF r])
  have l: "grows sh (log_msg lv s sh1)" for lv s using e by blast
  have m: "grows sh (log_msg lv2 s2 sh2)" "grows sh sh2"
    if "emit_event env ns name t (log_msg lv s sh1) = (x, sh2)" for lv s x t sh2 lv2 s2
    using grows_trans [OF l emit_event_grows [OF that]] by blast+
  show ?thesis
  proof (cases w)
    case (Inl x)
    with assms r e show ?thesis by (simp add: warn_only_branch_def)
  next
    case (Inr x)
    obtain msg escalated where "x = (msg, escalated)" by fastforce
    with assms r Inr e l m show ?thesis
      by (auto simp: warn_only_branch_def Let_def split: sum.splits prod.splits if_splits)
  qed
qed

lemma freeze_grows:
  "freeze_and_kill_cgroup env c sh = (b, sh') \<Longrightarrow> grows sh sh'"
  by (auto simp: freeze_and_kill_cgroup_def Let_def split: prod.splits option.splits kill_file.splits)

lemma queue_delete_grows:
  "queue_delete ns name reason b k sh = (k', sh') \<Longrightarrow> grows sh sh'"
  by (auto simp: queue_delete_def Let_def split: if_splits)


text \<open>A kill that reports success says so in the log.\<close>

lemma kill_resolved_log:
  assumes "kill_resolved env c ns name reason k sh = (v, k', sh')"
  shows "grows sh sh'" "v = Inr True \<Longrightarrow> \<exists>who how. adds sh (Log Critical (msg_killed who how reason)) sh'"
proof -
  have "grows sh sh' \<and> (v = Inr True \<longrightarrow> (\<exists>who how. adds sh (Log Critical (msg_killed who how reason)) sh'))"
  proof (cases "ki_dry_run k")
    case True
    with assms show ?thesis by (auto simp: kill_resolved_def)
  next
    case False
    obtain b sh1 where f: "freeze_and_kill_cgroup env c sh = (b, sh1)" by fastforce
    obtain k2 sh2 where q: "queue_delete ns name reason b k sh1 = (k2, sh2)" by fastforce
    have g: "grows sh sh2" using grows_trans [OF freeze_grows [OF f] queue_delete_grows [OF q]] .
    have "sh' = log_msg Critical (msg_killed (ns @ ''/'' @ name) b reason) sh2"
      using assms False f q by (simp add: kill_resolved_def)
    with g show ?thesis by (metis adds_log grows_log)
  qed
  then show "grows sh sh'" "v = Inr True \<Longrightarrow> \<exists>who how. adds sh (Log Critical (msg_killed who how reason)) sh'"
    by blast+
qed

lemma handle_kill_log:
  assumes "handle_kill env c reason k sh = (v, k', sh')"
  shows "grows sh sh'" "v = Inr True \<Longrightarrow> \<exists>who how. adds sh (Log Critical (msg_killed who how reason)) sh'"
proof -
  let ?told = "\<lambda>sh' v. grows sh sh' \<and>
    (v = Inr True \<longrightarrow> (\<exists>who how. adds sh (Log Critical (msg_killed who how reason)) sh'))"
  obtain w sh0 where r: "resolve_pod env c sh = (w, sh0)" by fastforce
  have g0: "grows sh sh0" using resolve_pod_frame(1) [OF r] by simp
  have kr: "?told sh2 y"
    if "kill_resolved env c ns name reason k1 sh1 = (y, k2, sh2)" "grows sh sh1" for ns name k1 sh1 y k2 sh2
    using kill_resolved_log [OF that(1)] that(2) by (meson grows_def adds_mono grows_trans prefix_order.refl)
  have "?told sh' v"
  proof (cases "\<exists>ns name. w = Inr (Some (ns, name))")
    case False
    then consider e where "w = Inl e" | "w = Inr None"
      by (cases w) (auto, metis option.exhaust prod.exhaust)
    then show ?thesis using assms r g0 by cases (auto simp: handle_kill_def)
  next
    case True
    then obtain ns name where w: "w = Inr (Some (ns, name))" by blast
    obtain x k1 sh1 where b: "warn_only_branch env c ns name reason k sh0 = (x, k1, sh1)"
      by (metis prod.exhaust)
    have g1: "grows sh sh1" using grows_trans [OF g0 warn_only_branch_grows [OF b]] .
    consider "ns \<in> set (ki_exclude k)" | e where "x = Inl e" "ns \<in> set (ki_warn_only k)" "ns \<notin> set (ki_exclude k)"
      | "x = Inr False" "ns \<in> set (ki_warn_only k)" "ns \<notin> set (ki_exclude k)"
      | "x = Inr True" "ns \<in> set (ki_warn_only k)" "ns \<notin> set (ki_exclude k)"
      | "ns \<notin> set (ki_warn_only k)" "ns \<notin> set (ki_exclude k)"
      by (metis sum.exhaust)
    then show ?thesis
    proof cases
      case 1
      with assms r w g0 show ?thesis by (auto simp: handle_kill_def)
    next
      case 2
      with assms r w b g1 show ?thesis by (auto simp: handle_kill_def)
    next
      case 3
      with assms r w b g1 show ?thesis by (auto simp: handle_kill_def)
    next
      case 4
      with assms r w b have "kill_resolved env c ns name reason k1 sh1 = (v, k', sh')"
        by (simp add: handle_kill_def)
      then show ?thesis using g1 by (rule kr)
    next
      case 5
      with assms r w have "kill_resolved env c ns name reason k sh0 = (v, k', sh')"
        by (simp add: handle_kill_def)
      then show ?thesis using g0 by (rule kr)
    qed
  qed
  then show "grows sh sh'" "v = Inr True \<Longrightarrow> \<exists>who how. adds sh (Log Critical (msg_killed who how reason)) sh'"
    by blast+
qed

section \<open>Arming\<close>

text \<open>
  What a piece of execution may do to one cgroup's arming: begin it with the ARMED message, end it
  with the two messages of a kill. The relation is a preorder, so it is proved step by step.
\<close>

definition kill_logged :: "u64 \<Rightarrow> shared \<Rightarrow> shared \<Rightarrow> bool" where
  "kill_logged c sh sh' =
     (\<exists>who how reason. adds sh (Log Critical (msg_kill (uint c) reason)) sh' \<and>
        adds sh (Log Critical (msg_killed who how reason)) sh')"

definition arming_told :: "u64 \<Rightarrow> agent \<Rightarrow> agent \<Rightarrow> bool" where
  "arming_told c a a' =
     (grows (ag_shared a) (ag_shared a') \<and>
      (ag_armed a c \<noteq> None \<and> ag_armed a' c = None \<longrightarrow> kill_logged c (ag_shared a) (ag_shared a')) \<and>
      (ag_armed a c = None \<and> ag_armed a' c \<noteq> None \<longrightarrow>
         adds (ag_shared a) (Log Info (msg_armed (uint c))) (ag_shared a')))"

lemma kill_logged_mono:
  assumes "grows sh sh1" "kill_logged c sh1 sh2" "grows sh2 sh3"
  shows "kill_logged c sh sh3"
  using assms unfolding kill_logged_def by (blast intro: adds_mono)

lemma arming_same:
  "ag_armed a' c = ag_armed a c \<Longrightarrow> grows (ag_shared a) (ag_shared a') \<Longrightarrow> arming_told c a a'"
  by (auto simp: arming_told_def)

lemma arming_refl: "arming_told c a a"
  by (simp add: arming_same)

lemma arming_trans [trans]:
  assumes "arming_told c a b" "arming_told c b d"
  shows "arming_told c a d"
proof -
  have g: "grows (ag_shared a) (ag_shared b)" "grows (ag_shared b) (ag_shared d)"
    using assms by (simp_all add: arming_told_def)
  have refl: "grows sh sh" for sh by simp
  have k: "kill_logged c (ag_shared a) (ag_shared d)" if "ag_armed a c \<noteq> None" "ag_armed d c = None"
  proof (cases "ag_armed b c")
    case None
    then have "kill_logged c (ag_shared a) (ag_shared b)" using assms(1) that(1) by (simp add: arming_told_def)
    then show ?thesis by (rule kill_logged_mono [OF refl _ g(2)])
  next
    case (Some y)
    then have "kill_logged c (ag_shared b) (ag_shared d)" using assms(2) that(2) by (simp add: arming_told_def)
    then show ?thesis by (rule kill_logged_mono [OF g(1) _ refl])
  qed
  have s: "adds (ag_shared a) (Log Info (msg_armed (uint c))) (ag_shared d)"
    if "ag_armed a c = None" "ag_armed d c \<noteq> None"
  proof (cases "ag_armed b c")
    case None
    then have "adds (ag_shared b) (Log Info (msg_armed (uint c))) (ag_shared d)"
      using assms(2) that(2) by (simp add: arming_told_def)
    then show ?thesis by (rule adds_mono [OF g(1) _ refl])
  next
    case (Some y)
    then have "adds (ag_shared a) (Log Info (msg_armed (uint c))) (ag_shared b)"
      using assms(1) that(1) by (simp add: arming_told_def)
    then show ?thesis by (rule adds_mono [OF refl _ g(2)])
  qed
  show ?thesis using grows_trans [OF g] k s by (simp add: arming_told_def)
qed

lemma respond_warn_told:
  fixes c' :: u64
  shows "arming_told c a (respond_warn env (uint c') reason a)"
proof (cases "ag_kernel_enforce a \<and> ae_accepts env (ag_armed a) c'")
  case False
  then show ?thesis
    by (intro arming_same) (auto simp: respond_warn_def arm_def table_put_def Let_def)
next
  case True
  show ?thesis
  proof (cases "c = c'")
    case False
    with True show ?thesis
      by (intro arming_same) (auto simp: respond_warn_def arm_def table_put_def Let_def)
  next
    case c: True
    have "respond_warn env (uint c') reason a =
        a\<lparr>ag_armed := (ag_armed a)(c' \<mapsto> tracer_ARMED_KILL),
          ag_shared := log_msg Info (msg_armed (uint c')) (log_msg Warning (msg_warn (uint c') reason) (ag_shared a))\<rparr>"
      using True by (simp add: respond_warn_def arm_def table_put_def Let_def)
    with c show ?thesis
      by (auto simp: arming_told_def)
  qed
qed

lemma respond_kill_told:
  fixes c' :: u64
  assumes "respond_kill env (uint c') reason a = (v, a')"
  shows "arming_told c a a'"
proof (cases "ag_killer a")
  case None
  with assms show ?thesis by (intro arming_same) (auto simp: respond_kill_def)
next
  case (Some k)
  let ?sh = "log_msg Critical (msg_kill (uint c') reason) (ag_shared a)"
  obtain w k1 sh1 where h: "handle_kill (kenv.truncate env) (uint c') reason k ?sh = (w, k1, sh1)"
    by (metis prod.exhaust)
  have g0: "grows (ag_shared a) ?sh" by simp
  have g: "grows (ag_shared a) sh1" using grows_trans [OF g0 handle_kill_log(1) [OF h]] .
  show ?thesis
  proof (cases "w = Inr True")
    case False
    with assms Some h g have "ag_armed a' = ag_armed a" "ag_shared a' = sh1"
      by (auto simp: respond_kill_def Let_def split: sum.splits)
    with g show ?thesis by (intro arming_same) simp_all
  next
    case True
    with assms Some h have a': "ag_armed a' = disarm (uint c') (ag_armed a)" "ag_shared a' = sh1"
      by (auto simp: respond_kill_def Let_def)
    obtain who how where "adds ?sh (Log Critical (msg_killed who how reason)) sh1"
      using handle_kill_log(2) [OF h True] by blast
    then have "adds (ag_shared a) (Log Critical (msg_killed who how reason)) sh1"
      by (rule adds_mono [OF g0]) simp
    moreover have "adds (ag_shared a) (Log Critical (msg_kill (uint c') reason)) sh1"
      by (rule adds_mono [OF _ _ handle_kill_log(1) [OF h], of "ag_shared a" "ag_shared a"]) simp_all
    ultimately have "kill_logged c' (ag_shared a) sh1" unfolding kill_logged_def by blast
    with a' g show ?thesis by (auto simp: arming_told_def disarm_def)
  qed
qed


lemma count_detection_told:
  "count_detection env c' d a = (v, a') \<Longrightarrow> arming_told c a a'"
  using count_detection_frame(1,5) by (intro arming_same) simp_all

lemma on_verdict_told:
  fixes c' :: u64
  assumes "on_verdict env story d a = (v, a')" "st_cgroup_id story = uint c'"
  shows "arming_told c a a'"
proof -
  let ?a1 = "a\<lparr>ag_last_decision := (ag_last_decision a)(uint c' \<mapsto> d)\<rparr>"
  have t1: "arming_told c a (a\<lparr>ag_last_decision := l\<rparr>)" for l by (intro arming_same) simp_all
  obtain w a2 where cd: "count_detection env (uint c') d ?a1 = (w, a2)" by fastforce
  have t2: "arming_told c a a2" using arming_trans [OF t1 count_detection_told [OF cd]] .
  have tw: "arming_told c a (respond_warn env (uint c') (policy_reason story) a2)"
    using arming_trans [OF t2 respond_warn_told] .
  obtain x a3 where rk: "respond_kill env (uint c') (policy_reason story) a2 = (x, a3)" by fastforce
  have tk: "arming_told c a a3" using arming_trans [OF t2 respond_kill_told [OF rk]] .
  show ?thesis
    using assms cd t1 t2 tw rk tk arming_refl
    by (cases w) (auto simp: on_verdict_def Let_def split: if_splits)
qed

lemma on_event_told:
  fixes c' :: u64
  assumes "on_event env e a = (v, a')" "agent_ok a" "ev_cgroup_id e = uint c'"
  shows "arming_told c a a'"
proof (cases "sees_pod env e a")
  case False
  with assms(1) show ?thesis by (intro arming_same) (auto simp: on_event_host)
next
  case True
  have s: "arming_told c a (scored_agent env e a)"
    by (intro arming_same) (auto simp: scored_agent_def Let_def)
  show ?thesis
  proof (cases "evaluate (ag_policy a) (event_story env e a)")
    case (Inl err)
    with assms(1) s True show ?thesis by (auto simp: on_event_pod)
  next
    case (Inr d)
    with assms(1) True have v: "on_verdict env (event_story env e a) d (scored_agent env e a) = (v, a')"
      by (simp add: on_event_pod)
    have "st_cgroup_id (event_story env e a) = uint c'" using event_story_id [OF assms(2)] assms(3) by simp
    from arming_trans [OF s on_verdict_told [OF v this]] show ?thesis .
  qed
qed

lemma agent_handle_told:
  assumes "agent_handle env now raw tr a = (v, tr', a')" "agent_ok a"
  shows "arming_told c a a'"
  using assms(1)
proof (cases rule: agent_handle_cases)
  case (noise mx)
  then show ?thesis by (intro arming_same) simp_all
next
  case (event mx)
  let ?a = "a\<lparr>ag_shared := (ag_shared a)\<lparr>sh_metrics := mx\<rparr>\<rparr>"
  have "arming_told c a ?a" by (intro arming_same) simp_all
  moreover have "arming_told c ?a a'"
    by (rule on_event_told [OF event(2)]) (simp_all add: assms(2))
  ultimately show ?thesis by (rule arming_trans)
qed

lemma agent_lost_frame:
  assumes "agent_lost count tr a = (tr', a')"
  shows "\<exists>mx. a' = a\<lparr>ag_shared := (ag_shared a)\<lparr>sh_metrics := mx\<rparr>\<rparr>"
    "tr_total tr' = tr_total tr" "tr_lost_total tr' = tr_lost_total tr + count"
  using assms by (auto simp: agent_lost_def handle_lost_def)

lemma agent_ok_frame:
  "agent_ok (update_gauges s a) = agent_ok a"
  "agent_ok (a\<lparr>ag_shared := sh\<rparr>) = agent_ok a"
  by (simp_all add: agent_ok_def)

lemma node_step_ok:
  "node_step n n' \<Longrightarrow> agent_ok (nd_agent n) \<Longrightarrow> agent_ok (nd_agent n')"
proof (induction rule: node_step.induct)
  case (deliver n before raw after env now_ns v tr a)
  then show ?case by (simp add: agent_handle_ok)
next
  case (lose n before lost after tr a)
  then obtain mx where "a = (nd_agent n)\<lparr>ag_shared := (ag_shared (nd_agent n))\<lparr>sh_metrics := mx\<rparr>\<rparr>"
    using agent_lost_frame(1) by blast
  with lose show ?case by (simp add: agent_ok_frame)
qed (simp_all add: agent_ok_frame node_probe_def Let_def)

lemma node_step_told:
  "node_step n n' \<Longrightarrow> agent_ok (nd_agent n) \<Longrightarrow> arming_told c (nd_agent n) (nd_agent n')"
proof (induction rule: node_step.induct)
  case (deliver n before raw after env now_ns v tr a)
  then show ?case by (simp add: agent_handle_told)
next
  case (lose n before lost after tr a)
  then obtain mx where "a = (nd_agent n)\<lparr>ag_shared := (ag_shared (nd_agent n))\<lparr>sh_metrics := mx\<rparr>\<rparr>"
    using agent_lost_frame(1) by blast
  then show ?case by (intro arming_same) simp_all
next
  case (gauges n)
  then show ?case by (intro arming_same) simp_all
qed (simp_all add: node_probe_def Let_def arming_refl arming_same)

interpretation okay: step_invariant node_step "\<lambda>n. agent_ok (nd_agent n)"
  by unfold_locales (rule node_step_ok)

lemma node_run_told:
  assumes "node_step\<^sup>*\<^sup>* n n'" "agent_ok (nd_agent n)"
  shows "arming_told c (nd_agent n) (nd_agent n')"
  using assms
proof (induction rule: rtranclp_induct)
  case base
  show ?case by (rule arming_refl)
next
  case (step n1 n2)
  then have "agent_ok (nd_agent n1)" by (blast intro: okay.reachable)
  with step show ?case by (blast intro: arming_trans node_step_told)
qed


section \<open>Invariants\<close>

text \<open>Every armed cgroup and every response to an armed cgroup has its message in the log.\<close>

definition armed_message :: "u64 \<Rightarrow> node \<Rightarrow> bool" where
  "armed_message c n = (Log Info (msg_armed (uint c)) \<in> set (sh_effects (ag_shared (nd_agent n))))"

definition announced :: "node \<Rightarrow> bool" where
  "announced n =
     (agent_ok (nd_agent n) \<and>
      (\<forall>c. ag_armed (nd_agent n) c \<noteq> None \<longrightarrow> armed_message c n) \<and>
      (\<forall>(sc, c) \<in> set (nd_signals n). response sc = RedLine \<or> response sc = WhenArmed \<and> armed_message c n))"

lemma told_message:
  assumes "arming_told c (nd_agent n) (nd_agent n')"
  shows "armed_message c n \<Longrightarrow> armed_message c n'"
    "ag_armed (nd_agent n) c = None \<Longrightarrow> ag_armed (nd_agent n') c \<noteq> None \<Longrightarrow> armed_message c n'"
  using assms by (auto simp: arming_told_def armed_message_def grows_def adds_def dest: set_mono_prefix)

lemma signals_due:
  assumes "s \<in> set (signals (run_probe sc enforce m t fam arg))"
  shows "response sc = RedLine \<or> response sc = WhenArmed \<and> armed_cgroups m (t_cgroup_id t) \<noteq> None"
  using assms
  by (auto simp: run_probe_spec perf_submit_def dropped_def kernel_kills_def response_due_def
      split: if_splits tier.splits)

lemma announced_step:
  assumes "announced n" "node_step n n'"
  shows "announced n'"
proof -
  have ok: "agent_ok (nd_agent n)" using assms(1) by (simp add: announced_def)
  note told = told_message [OF node_step_told [OF assms(2) ok]]
  have armed: "armed_message c n'" if "ag_armed (nd_agent n') c \<noteq> None" for c
    using told(1,2) [of c] that assms(1) by (cases "ag_armed (nd_agent n) c") (auto simp: announced_def)
  have "response sc = RedLine \<or> response sc = WhenArmed \<and> armed_message c n'" if s: "(sc, c) \<in> set (nd_signals n')" for sc c
  proof (cases "(sc, c) \<in> set (nd_signals n)")
    case True
    with assms(1) told(1) [of c] show ?thesis by (auto simp: announced_def)
  next
    case new: False
    from assms(2) show ?thesis
    proof cases
      case (probe sc' t fam arg)
      then have "nd_agent n' = nd_agent n" and
        "\<exists>x. x \<in> set (signals (run_probe sc (nd_enforce n) (node_maps n) t fam arg)) \<and> t_cgroup_id t = c"
        using s new by (auto simp: node_probe_def Let_def)
      then have "response sc = RedLine \<or> response sc = WhenArmed \<and> ag_armed (nd_agent n') c \<noteq> None"
        by (auto simp: node_maps_def dest!: signals_due)
      with armed show ?thesis by blast
    qed (use s new in simp_all)
  qed
  with armed node_step_ok [OF assms(2) ok] show ?thesis by (auto simp: announced_def)
qed

interpretation messages: step_invariant node_step announced
  by unfold_locales (rule announced_step)

text \<open>A node that only observes.\<close>

definition observing :: "node \<Rightarrow> bool" where
  "observing n = (toothless (nd_agent n) \<and> \<not> nd_enforce n \<and> nd_signals n = [])"

lemma toothless_frame:
  "toothless (update_gauges s a) = toothless a"
  "toothless (a\<lparr>ag_shared := (ag_shared a)\<lparr>sh_metrics := mx\<rparr>\<rparr>) = toothless a"
  "toothless (a\<lparr>ag_shared := (ag_shared a)\<lparr>sh_resolver := r\<rparr>\<rparr>) = toothless a"
  by (simp_all add: toothless_def acts_def)

lemma observing_step: "observing n \<Longrightarrow> node_step n n' \<Longrightarrow> observing n'"
proof (rotate_tac, induction rule: node_step.induct)
  case (probe n sc t fam arg)
  then show ?case
    by (simp add: observing_def node_probe_def Let_def run_probe_spec kernel_kills_def perf_submit_def dropped_def)
next
  case (deliver n before raw after env now_ns v tr a)
  then show ?case by (auto simp: observing_def intro: agent_handle_toothless)
next
  case (lose n before lost after tr a)
  then obtain mx where "a = (nd_agent n)\<lparr>ag_shared := (ag_shared (nd_agent n))\<lparr>sh_metrics := mx\<rparr>\<rparr>"
    using agent_lost_frame(1) by blast
  with lose show ?case by (simp add: observing_def toothless_frame)
qed (simp_all add: observing_def toothless_frame)

interpretation observers: step_invariant node_step observing
  by unfold_locales (rule observing_step)

text \<open>Every record submitted was handled, was reported lost or is still in the buffer.\<close>

definition accounted :: "node \<Rightarrow> bool" where
  "accounted n =
     (nd_submitted n = tr_total (nd_tracer n) + tr_lost_total (nd_tracer n) + int (length (nd_buffer n)))"

lemma agent_handle_tracer:
  "agent_handle env now raw tr a = (v, tr', a') \<Longrightarrow>
     tr_total tr' = tr_total tr + 1 \<and> tr_lost_total tr' = tr_lost_total tr"
  by (auto simp: agent_handle_def handle_event_def Let_def split: prod.splits option.splits if_splits)

lemma accounted_step: "accounted n \<Longrightarrow> node_step n n' \<Longrightarrow> accounted n'"
proof (rotate_tac, induction rule: node_step.induct)
  case (deliver n before raw after env now_ns v tr a)
  then show ?case using agent_handle_tracer [OF deliver(2)] by (simp add: accounted_def)
next
  case (lose n before lost after tr a)
  then show ?case using agent_lost_frame(2,3) [OF lose(2)] by (simp add: accounted_def)
qed (simp_all add: accounted_def node_probe_def Let_def)

interpretation accounts: step_invariant node_step accounted
  by unfold_locales (rule accounted_step)


section \<open>Properties\<close>

lemma node_init_facts:
  assumes "main_setup cf document node now support env = Inr sys"
  shows "announced (node_init sys)" "accounted (node_init sys)"
    "\<not> cf_enforce cf \<or> cf_no_k8s cf \<Longrightarrow> \<not> cf_kernel_enforce cf \<or> \<not> support \<Longrightarrow> observing (node_init sys)"
proof -
  have "tr_total (sys_tracer sys) = 0 \<and> tr_lost_total (sys_tracer sys) = 0"
    using assms
    by (auto simp: main_setup_def launch_def tracer_init_def Let_def split_beta and_then_Inr_iff split: if_splits)
  then show "accounted (node_init sys)" by (simp add: accounted_def node_init_def)
  show "announced (node_init sys)"
    using main_setup_fresh(1,2) [OF assms] by (auto simp: announced_def node_init_def about_def)
  show "\<not> cf_enforce cf \<or> cf_no_k8s cf \<Longrightarrow> \<not> cf_kernel_enforce cf \<or> \<not> support \<Longrightarrow> observing (node_init sys)"
    using main_setup_toothless [OF assms] main_setup_fresh(3) [OF assms]
    by (simp add: observing_def node_init_def)
qed

text \<open>C3. The safe modes are safe for the whole node: started without \<open>--enforce\<close> (or with
  \<open>--no-k8s\<close>) and without \<open>--kernel-enforce\<close>, whatever the policy says, whatever system calls are
  made and however probes, deliveries, losses, scans and gauge refreshes interleave, no SIGKILL is sent, no
  \<open>cgroup.kill\<close> written, no Event created and no deletion queued.\<close>
theorem observation_only:
  assumes "main_setup cf document node now support env = Inr sys"
    and "\<not> cf_enforce cf \<or> cf_no_k8s cf" and "\<not> cf_kernel_enforce cf \<or> \<not> support"
    and "node_step\<^sup>*\<^sup>* (node_init sys) n"
  shows "nd_signals n = [] \<and> kills (sh_effects (ag_shared (nd_agent n))) = [] \<and>
     created_events (sh_effects (ag_shared (nd_agent n))) = [] \<and>
     (\<forall>k. ag_killer (nd_agent n) = Some k \<longrightarrow> ki_queue k = [])"
  using observers.reachable [OF assms(4) node_init_facts(3) [OF assms(1-3)]]
  by (auto simp: observing_def toothless_def acts_def)

text \<open>Witness of C3: the default mode with the shipped policy, and a \<open>setns\<close> that is recorded.\<close>
theorem observation_only_witness:
  "\<exists>sys n. main_setup \<lparr>cf_enforce = False, cf_no_k8s = False, cf_kernel_enforce = False,
       cf_no_kernel_filter = False, cf_sync_interval = 5, cf_metrics_port = 9102\<rparr> shipped_config ''worker-1'' 0 True
       (demo_env ''prod'') = Inr sys \<and>
     node_step\<^sup>*\<^sup>* (node_init sys) n \<and> nd_signals n = []"
proof -
  let ?cf = "\<lparr>cf_enforce = False, cf_no_k8s = False, cf_kernel_enforce = False,
       cf_no_kernel_filter = False, cf_sync_interval = 5, cf_metrics_port = 9102\<rparr>"
  let ?t = "\<lparr>t_ktime = 5000000000, t_pid_tgid = 0, t_cgroup_id = 108000, t_comm = ''nsenter'', t_ppid = 1\<rparr>"
  obtain sys where sys: "main_setup ?cf shipped_config ''worker-1'' 0 True (demo_env ''prod'') = Inr sys"
    using shipped_setup by blast
  have run: "node_step\<^sup>*\<^sup>* (node_init sys) (node_probe Setns ?t 0 [] (node_init sys))"
    by (rule r_into_rtranclp) (rule probe)
  from observation_only [OF sys _ _ run] sys run show ?thesis by auto
qed

text \<open>C14. No event vanishes: at every moment, the records the program submitted are those the tracer
  counted, those it was told are lost and those still in the perf buffers.\<close>
theorem every_record_accounted:
  assumes "main_setup cf document node now support env = Inr sys"
    and "node_step\<^sup>*\<^sup>* (node_init sys) n"
  shows "nd_submitted n = tr_total (nd_tracer n) + tr_lost_total (nd_tracer n) + int (length (nd_buffer n))"
  using accounts.reachable [OF assms(2) node_init_facts(2) [OF assms(1)]] by (simp add: accounted_def)

text \<open>Witness of C14: one record submitted and not yet delivered.\<close>
theorem every_record_accounted_witness:
  "\<exists>sys n. main_setup \<lparr>cf_enforce = True, cf_no_k8s = False, cf_kernel_enforce = False,
       cf_no_kernel_filter = True, cf_sync_interval = 5, cf_metrics_port = 9102\<rparr> shipped_config ''worker-1'' 0 True
       (demo_env ''prod'') = Inr sys \<and>
     node_step\<^sup>*\<^sup>* (node_init sys) n \<and> nd_submitted n = 1 \<and>
     tr_total (nd_tracer n) + tr_lost_total (nd_tracer n) = 0"
proof -
  let ?cf = "\<lparr>cf_enforce = True, cf_no_k8s = False, cf_kernel_enforce = False,
       cf_no_kernel_filter = True, cf_sync_interval = 5, cf_metrics_port = 9102\<rparr>"
  let ?env = "demo_env ''prod''"
  let ?t = "\<lparr>t_ktime = 5000000000, t_pid_tgid = 0, t_cgroup_id = 108000, t_comm = ''nsenter'', t_ppid = 1\<rparr>"
  obtain sys where sys: "main_setup ?cf shipped_config ''worker-1'' 0 True ?env = Inr sys"
    using shipped_setup by blast
  let ?n = "node_probe Setns ?t 0 [] (node_init sys)"
  have run: "node_step\<^sup>*\<^sup>* (node_init sys) ?n"
    by (rule r_into_rtranclp) (rule probe)
  have "sys_classes sys = Map.empty" by (rule demo_classes [OF sys])
  then have "nd_submitted ?n = 1" "length (nd_buffer ?n) = 1"
    by (simp_all add: node_probe_def node_init_def node_maps_def run_probe_spec delivered_def should_skip_def
        perf_submit_def Let_def del: run_probe.simps)
  with every_record_accounted [OF sys run] sys run show ?thesis by auto
qed


lemma adds_drop: "adds sh f sh' \<Longrightarrow> f \<in> set (drop (length (sh_effects sh)) (sh_effects sh'))"
  by (auto simp: adds_def)

text \<open>C15. Arming ends only with a kill: if a cgroup is armed now and not armed later, then in between
  the agent logged a KILL verdict on that cgroup and the success of the kill; neither a verdict
  that falls back to ALLOW nor anything else disarms.\<close>
theorem armed_until_killed:
  assumes "agent_ok (nd_agent n)" and "node_step\<^sup>*\<^sup>* n n'"
    and "ag_armed (nd_agent n) c \<noteq> None" and "ag_armed (nd_agent n') c = None"
  shows "\<exists>who how reason.
     {Log Critical (msg_kill (uint c) reason), Log Critical (msg_killed who how reason)}
       \<subseteq> set (drop (length (sh_effects (ag_shared (nd_agent n)))) (sh_effects (ag_shared (nd_agent n'))))"
proof -
  have "kill_logged c (ag_shared (nd_agent n)) (ag_shared (nd_agent n'))"
    using node_run_told [OF assms(2,1), of c] assms(3,4) by (simp add: arming_told_def)
  then obtain who how reason where
    "adds (ag_shared (nd_agent n)) (Log Critical (msg_kill (uint c) reason)) (ag_shared (nd_agent n'))"
    "adds (ag_shared (nd_agent n)) (Log Critical (msg_killed who how reason)) (ag_shared (nd_agent n'))"
    unfolding kill_logged_def by blast
  then show ?thesis by (intro exI [of _ who] exI [of _ how] exI [of _ reason]) (simp add: adds_drop)
qed

text \<open>Witness of C15: an armed pod that calls \<open>setns\<close> and is killed.\<close>
theorem armed_until_killed_witness:
  "\<exists>n n'. node_step\<^sup>*\<^sup>* n n' \<and> ag_armed (nd_agent n) 108000 = Some ARMED_KILL \<and>
     ag_armed (nd_agent n') 108000 = None \<and>
     (\<exists>reason. Log Critical (msg_kill 108000 reason) \<in> set (sh_effects (ag_shared (nd_agent n'))))"
proof -
  let ?a = "(demo_agent (demo_resolved ''prod''))\<lparr>ag_armed := [108000 \<mapsto> ARMED_KILL]\<rparr>"
  let ?env = "demo_aenv (demo_api ''prod'') demo_fs"
  let ?raw = "demo_raw ''nsenter'' 4"
  let ?tr = "snd (tracer_init True True 0)"
  let ?n = "\<lparr>nd_agent = ?a, nd_tracer = ?tr, nd_enforce = True, nd_classes = Map.empty, nd_sync = None,
     nd_buffer = [?raw], nd_submitted = 1, nd_signals = [(Setns, 108000)]\<rparr>"
  obtain v tr' a' where h: "agent_handle ?env 6000000000 ?raw ?tr ?a = (v, tr', a')"
    by (metis prod.exhaust)
  have noise: "\<not> is_noise (decode_replace (c_string 16 (raw_comm ?raw)))"
    by (simp add: demo_raw_def c_string_def decode_ascii byte_def is_noise_def noise_comms_def
        noise_comm_prefixes_def startswith_def isdigit_ascii)
  have score: "(90 :: rat) \<le> of_int (score_event (parse_event 6000000000 ?raw))"
    using red_line_score [of Setns ?raw 6000000000] by (simp add: demo_raw_def)
  have kn: "knows_pod (ag_shared ?a) (uint (raw_cgroup_id ?raw)) demo_path ''prod'' ''attacker''"
    using demo_knows_pod by (simp add: demo_raw_def)
  have ok: "agent_ok ?a" using demo_agent_ok by (simp add: agent_ok_def)
  have "ag_armed a' (raw_cgroup_id ?raw) = None"
    using conclusive_record_kills(5) [OF h ok noise _ score _ _ _ _ kn, of demo_killer]
    by (simp add: demo_agent_def demo_policy_def numeric_def demo_aenv_def demo_raw_def
        correlation_window_sec_def may_kill_def demo_killer_def demo_fs_def)
  then have gone: "ag_armed a' 108000 = None" by (simp add: demo_raw_def)
  have step: "node_step\<^sup>*\<^sup>* ?n (?n\<lparr>nd_buffer := [] @ [], nd_tracer := tr', nd_agent := a'\<rparr>)"
    using h by (intro r_into_rtranclp node_step.deliver) simp_all
  from armed_until_killed [OF _ step, of 108000] ok gone have
    "\<exists>reason. Log Critical (msg_kill 108000 reason) \<in> set (sh_effects (ag_shared a'))"
    by (auto dest: in_set_dropD)
  with gone show ?thesis
    by - (rule exI [of _ ?n], rule exI, rule conjI [OF step], simp)
qed


section \<open>A warning and its consequence\<close>

text \<open>
  The shipped policy with \<open>--no-k8s --kernel-enforce\<close>: a container reads \<open>/etc/shadow\<close>, the record
  is delivered, the container calls \<open>chroot\<close>.
\<close>

definition demo_task :: "string \<Rightarrow> task" where
  "demo_task comm = \<lparr>t_ktime = 5000000000, t_pid_tgid = 0, t_cgroup_id = 108000, t_comm = comm, t_ppid = 1\<rparr>"

definition demo_config :: config where
  "demo_config = \<lparr>cf_enforce = False, cf_no_k8s = True, cf_kernel_enforce = True, cf_no_kernel_filter = True,
     cf_sync_interval = 5, cf_metrics_port = 0\<rparr>"

lemma demo_read_warns:
  assumes "kill_threshold (ag_policy a) = YInt 90" "warn_threshold (ag_policy a) = YInt 40"
    and "ag_stories a = Map.empty" "ev_cgroup_id e = 108000" "score_event e = 60" "ev_ts e = 5"
  shows "evaluate (ag_policy a) (event_story (demo_aenv api fs) e a) = Inr WARN"
  using assms
  by (simp add: event_story_def process_snd story_add_def evict_old_def new_story_def demo_aenv_def
      correlation_window_sec_def evaluate_def py_ge_def numeric_def)

lemma demo_read_arms:
  assumes "kill_threshold (ag_policy a) = YInt 90" "warn_threshold (ag_policy a) = YInt 40"
    and "ag_stories a = Map.empty" "ag_last_decision a = Map.empty" "ag_kernel_enforce a"
    and "sh_metrics (ag_shared a) = None" "sh_resolver (ag_shared a) = new_resolver"
    and "ev_cgroup_id e = 108000" "score_event e = 60" "ev_ts e = 5"
    and "on_event (demo_aenv api demo_fs) e a = (v, a')"
  shows "ag_armed a' 108000 = Some ARMED_KILL"
proof -
  let ?env = "demo_aenv api demo_fs"
  have pod: "fst (is_pod_cgroup demo_fs 108000 new_resolver)"
    by (simp add: is_pod_cgroup_eq demo_find new_resolver_def)
  then have s: "sees_pod ?env e a" using assms(7,8) by (simp add: sees_pod_def demo_aenv_def)
  have warn: "evaluate (ag_policy a) (event_story ?env e a) = Inr WARN"
    by (rule demo_read_warns) (rule assms)+
  have "agent_ok a" using assms(3) by (simp add: agent_ok_def correlator_ok_empty)
  then have id: "st_cgroup_id (event_story ?env e a) = 108000" using event_story_id assms(8) by simp
  have v: "on_verdict ?env (event_story ?env e a) WARN (scored_agent ?env e a) = (v, a')"
    using on_event_pod [OF s] warn assms(11) by simp
  moreover have "fst (on_verdict ?env (event_story ?env e a) WARN (scored_agent ?env e a)) = Inr ()"
    by (simp add: on_verdict_def id count_detection_def assms(6))
  ultimately have "on_verdict ?env (event_story ?env e a) WARN (scored_agent ?env e a) = (Inr (), a')" by simp
  from on_verdict_warn_arms [OF this, unfolded id] show ?thesis
    by (simp add: assms(4,5) accepts_all_def demo_aenv_def always_accepts_def c_uint64_def)
qed


lemma demo_read_record:
  assumes "submitted (run_probe Openat enforce m (demo_task ''cat'') fam ''/etc/shadow'') = Some raw"
  shows "\<not> is_noise (ev_comm (parse_event now raw))" "ev_cgroup_id (parse_event now raw) = 108000"
    "score_event (parse_event now raw) = 60" "ev_ts (parse_event now raw) = 5"
proof -
  have raw: "raw_comm raw = ''cat''" "raw_filename raw = ''/etc/shadow''" "raw_cgroup_id raw = 108000"
    "raw_syscall_type raw = 1" "raw_ktime raw = 5000000000"
    using assms by (auto simp: run_probe_spec perf_submit_def dropped_def probe_event_def demo_task_def
        copies_argument_def split: if_splits)
  show "ev_cgroup_id (parse_event now raw) = 108000" "ev_ts (parse_event now raw) = 5"
    by (simp_all add: parse_event_def raw)
  show "\<not> is_noise (ev_comm (parse_event now raw))"
    by (simp add: parse_event_def raw c_string_def decode_ascii byte_def is_noise_def noise_comms_def
        noise_comm_prefixes_def startswith_def isdigit_ascii)
  have f: "ev_filename (parse_event now raw) = ''/etc/shadow''" "ev_syscall (parse_event now raw) = ''openat''"
    by (simp_all add: parse_event_def raw c_string_def decode_ascii byte_def syscall_names_def dict_get_def)
  show "score_event (parse_event now raw) = 60"
    by (simp add: score_event_def f) (simp add: score_eval)
qed

lemma demo_chroot_signalled:
  assumes sys: "main_setup demo_config shipped_config ''worker-1'' 0 True (demo_env ''prod'') = Inr sys"
  shows "\<exists>n. node_step\<^sup>*\<^sup>* (node_init sys) n \<and> (Chroot, 108000) \<in> set (nd_signals n)"
proof -
  have cls: "sys_classes sys = Map.empty" by (rule demo_classes [OF sys])
  have enf: "sys_enforce sys" using main_setup_fresh(3) [OF sys] by (simp add: demo_config_def)
  have a0: "kill_threshold (ag_policy (sys_agent sys)) = YInt 90" "warn_threshold (ag_policy (sys_agent sys)) = YInt 40"
    "ag_stories (sys_agent sys) = Map.empty" "ag_last_decision (sys_agent sys) = Map.empty"
    "ag_kernel_enforce (sys_agent sys)" "sh_metrics (ag_shared (sys_agent sys)) = None"
    "sh_resolver (ag_shared (sys_agent sys)) = new_resolver"
    by (rule main_setup_agent [OF sys],
        force simp: shipped_policy demo_config_def update_gauges_def Let_def)+
  let ?n1 = "node_probe Openat (demo_task ''cat'') 0 ''/etc/shadow'' (node_init sys)"
  obtain raw where raw: "submitted (run_probe Openat (sys_enforce sys) (node_maps (node_init sys))
      (demo_task ''cat'') 0 ''/etc/shadow'') = Some raw"
    using cls by (simp add: run_probe_spec delivered_def should_skip_def perf_submit_def node_maps_def
        node_init_def del: run_probe.simps)
  have n1: "nd_buffer ?n1 = [] @ raw # []" "nd_agent ?n1 = sys_agent sys" "nd_enforce ?n1" "nd_classes ?n1 = Map.empty"
    using raw enf cls by (simp_all add: node_probe_def Let_def node_init_def del: run_probe.simps)
  let ?env = "demo_aenv (demo_api ''prod'') demo_fs"
  obtain v tr a where h: "agent_handle ?env 6000000000 raw (nd_tracer ?n1) (sys_agent sys) = (v, tr, a)"
    by (metis prod.exhaust)
  let ?e = "parse_event 6000000000 raw"
  note e = demo_read_record [OF raw, of 6000000000]
  have "on_event ?env ?e (sys_agent sys) = (v, a)"
  proof -
    obtain d tr1 mx where he: "handle_event 6000000000 raw (nd_tracer ?n1) None = (d, tr1, mx)"
      by (metis prod.exhaust)
    have "d = Some ?e" "mx = None"
      using handle_event_delivers [of 6000000000 raw "nd_tracer ?n1" None] he e(1)
        handle_event_metrics [of 6000000000 raw "nd_tracer ?n1" None] by simp_all
    then have "on_event ?env ?e ((sys_agent sys)\<lparr>ag_shared := (ag_shared (sys_agent sys))\<lparr>sh_metrics := None\<rparr>\<rparr>) = (v, a)"
      using h he a0(6) by (auto simp: agent_handle_def split: prod.splits)
    moreover have "(sys_agent sys)\<lparr>ag_shared := (ag_shared (sys_agent sys))\<lparr>sh_metrics := None\<rparr>\<rparr> = sys_agent sys"
      using a0(6) by (cases "sys_agent sys", cases "ag_shared (sys_agent sys)") simp
    ultimately show ?thesis by (simp only:)
  qed
  then have armed: "ag_armed a 108000 = Some ARMED_KILL" by (rule demo_read_arms [OF a0 e(2-4)])
  let ?n2 = "?n1\<lparr>nd_buffer := [] @ [], nd_tracer := tr, nd_agent := a\<rparr>"
  let ?n3 = "node_probe Chroot (demo_task ''sh'') 0 ''/host'' ?n2"
  have "node_step (node_init sys) ?n1" by (rule probe)
  moreover have "node_step ?n1 ?n2" by (rule deliver [OF n1(1)]) (use h n1(2) in simp)
  moreover have "node_step ?n2 ?n3" by (rule probe)
  ultimately have run: "node_step\<^sup>*\<^sup>* (node_init sys) ?n3"
    by (meson r_into_rtranclp rtranclp_trans)
  have "signals (run_probe Chroot (nd_enforce ?n2) (node_maps ?n2) (demo_task ''sh'') 0 ''/host'') = [9]"
    using n1(3,4) armed
    by (simp add: run_probe_spec delivered_def should_skip_def perf_submit_def kernel_kills_def response_due_def
        kill_allowed_def is_container_runtime_iff node_maps_def demo_task_def del: run_probe.simps)
  then have "(Chroot, 108000) \<in> set (nd_signals ?n3)"
    by (simp add: node_probe_def Let_def demo_task_def del: run_probe.simps)
  with run show ?thesis by blast
qed

text \<open>C6. Every kill in the kernel can be explained from the log: whenever the program answered a
  call that is no red line with SIGKILL, the call is one that arming covers, and the agent had
  logged that it armed that very cgroup.\<close>
theorem kernel_responses_announced:
  assumes "main_setup cf document node now support env = Inr sys"
    and "node_step\<^sup>*\<^sup>* (node_init sys) n"
    and "(sc, c) \<in> set (nd_signals n)" and "response sc \<noteq> RedLine"
  shows "response sc = WhenArmed \<and>
     Log Info (msg_armed (uint c)) \<in> set (sh_effects (ag_shared (nd_agent n)))"
  using messages.reachable [OF assms(2) node_init_facts(1) [OF assms(1)]] assms(3,4)
  by (auto simp: announced_def armed_message_def)

text \<open>Witness of C6: the \<open>chroot\<close> after a read of \<open>/etc/shadow\<close>.\<close>
theorem kernel_responses_announced_witness:
  "\<exists>sys n. main_setup demo_config shipped_config ''worker-1'' 0 True (demo_env ''prod'') = Inr sys \<and>
     node_step\<^sup>*\<^sup>* (node_init sys) n \<and> (Chroot, 108000) \<in> set (nd_signals n) \<and>
     Log Info (msg_armed 108000) \<in> set (sh_effects (ag_shared (nd_agent n)))"
proof -
  obtain sys where sys: "main_setup demo_config shipped_config ''worker-1'' 0 True (demo_env ''prod'') = Inr sys"
    using shipped_setup by blast
  obtain n where n: "node_step\<^sup>*\<^sup>* (node_init sys) n" "(Chroot, 108000) \<in> set (nd_signals n)"
    using demo_chroot_signalled [OF sys] by blast
  from kernel_responses_announced [OF sys n] sys n show ?thesis by auto
qed

end
