(* ===== verification/Startup.thy ===== *)
theory Startup
  imports Node
begin

text \<open>
  The two ends of \<open>main\<close>: the lines by which it tells the operator the mode it runs in, and
  \<open>poll_loop\<close>, in which it stays until Ctrl+C. The loop is a function of what the calls of
  \<open>perf_buffer_poll\<close> do, one after the other: serve the callbacks that are due, be interrupted, or raise
  another exception, which leaves the loop and the closing lines with it; when the list is at its
  end the loop still runs, which is the value \<open>None\<close>.
\<close>

section \<open>The mode\<close>

definition mode_line :: "config \<Rightarrow> string" where
  "mode_line cf =
     (if cf_no_k8s cf then ''K8s integration disabled (--no-k8s): detection only''
      else ''K8s integration enabled, mode: '' @
           (if cf_enforce cf then ''ENFORCE (pods will be killed)'' else ''DRY-RUN''))"

text \<open>The warning of \<open>SyscallTracer.__init__\<close>.\<close>

definition tracer_warning :: "bool \<Rightarrow> bool \<Rightarrow> (level \<times> string) list" where
  "tracer_warning kernel_enforce support_raw_tracepoint =
     (if kernel_enforce \<and> support_raw_tracepoint then []
      else if kernel_enforce then
        [(Warning, ''kernel lacks the required helpers '' @ em_dash @
            '' kernel-enforce disabled, running detection only'')]
      else [])"

definition kernel_enforce_line :: string where
  "kernel_enforce_line =
     ''KERNEL-ENFORCE enabled: cgroups are armed on WARN, '' @
     ''escape syscalls are killed in-kernel (bpf_send_signal)''"

text \<open>The lines about the mode, in the order they are written.\<close>

definition startup_log :: "config \<Rightarrow> bool \<Rightarrow> (level \<times> string) list" where
  "startup_log cf support_raw_tracepoint =
     [(Info, mode_line cf)] @
     tracer_warning (cf_kernel_enforce cf) support_raw_tracepoint @
     (if cf_kernel_enforce cf then [(Info, kernel_enforce_line)] else []) @
     [(Info, ''KubeWarden started, watching syscalls...'')]"

section \<open>Polling\<close>

text \<open>
  What \<open>perf_buffer_poll\<close> calls back: \<open>_handle_event\<close> for a record, with what it meets, and
  \<open>_handle_lost\<close>. Both are \<open>ctypes\<close> callbacks: the C code that calls them has no use for a Python
  exception, so \<open>ctypes\<close> prints it and returns, and the state keeps what was changed before.
\<close>

datatype delivery = Record aenv int event_t | Lost int

fun serve :: "delivery \<Rightarrow> tracer \<times> agent \<Rightarrow> tracer \<times> agent" where
  "serve (Record env now_ns raw) (tr, a) = snd (agent_handle env now_ns raw tr a)"
| "serve (Lost count) (tr, a) = agent_lost count tr a"

datatype poll = Served "delivery list" | Interrupted rat "cgroup_sync option" | Raised py_error

definition closing_lines :: "rat \<Rightarrow> cgroup_sync option \<Rightarrow> tracer \<Rightarrow> string list result" where
  "closing_lines now sync tr =
     and_then (stats_summary now tr) (\<lambda>s.
       Inr ((CHR 0x0A # ''[stats] '' @ s) #
            (case sync of None \<Rightarrow> [] | Some cs \<Rightarrow> [''[cgroup-sync] '' @ sync_summary cs])))"

fun poll_loop :: "poll list \<Rightarrow> tracer \<times> agent \<Rightarrow> (string list result \<times> tracer \<times> agent) option" where
  "poll_loop [] st = None"
| "poll_loop (Served batch # polls) st = poll_loop polls (fold serve batch st)"
| "poll_loop (Interrupted now sync # polls) st = Some (closing_lines now sync (fst st), st)"
| "poll_loop (Raised e # polls) st = Some (Inl e, st)"

section \<open>Lemmas\<close>

lemma poll_loop_served: "poll_loop (map Served batches @ polls) st = poll_loop polls (fold serve (concat batches) st)"
  by (induction batches arbitrary: st) simp_all

lemma poll_loop_None: "poll_loop polls st = None \<longleftrightarrow> (\<exists>batches. polls = map Served batches)"
proof (induction polls st rule: poll_loop.induct)
  case (2 batch polls st)
  then show ?case by (auto simp: Cons_eq_map_conv)
qed auto

lemma serve_records: "fold serve (map (\<lambda>(env, now_ns, raw). Record env now_ns raw) evs) (tr, a) = run_agent evs tr a"
proof (induction evs arbitrary: tr a)
  case (Cons x evs)
  obtain env now_ns raw where x: "x = (env, now_ns, raw)" by (cases x)
  obtain v tr1 a1 where "agent_handle env now_ns raw tr a = (v, tr1, a1)" by (metis prod.exhaust)
  with x Cons.IH show ?case by simp
qed simp

fun reported :: "delivery \<Rightarrow> int" where
  "reported (Record env now_ns raw) = 1"
| "reported (Lost count) = count"

lemma serve_counts:
  "fold serve ds (tr, a) = (tr', a') \<Longrightarrow>
     tr_total tr' + tr_lost_total tr' = tr_total tr + tr_lost_total tr + sum_list (map reported ds) \<and>
     tr_started tr' = tr_started tr"
proof (induction ds arbitrary: tr a)
  case (Cons d ds)
  obtain tr1 a1 where d: "serve d (tr, a) = (tr1, a1)" by fastforce
  have "tr_total tr1 + tr_lost_total tr1 = tr_total tr + tr_lost_total tr + reported d \<and> tr_started tr1 = tr_started tr"
  proof (cases d)
    case (Record env now_ns raw)
    obtain v where "agent_handle env now_ns raw tr a = (v, tr1, a1)"
      using d Record by (cases "agent_handle env now_ns raw tr a") auto
    then show ?thesis
      using Record by (auto simp: agent_handle_def handle_event_def Let_def split: prod.splits option.splits if_splits)
  next
    case (Lost count)
    then show ?thesis using d by (auto simp: agent_lost_def handle_lost_def)
  qed
  then show ?case using Cons.IH [of tr1 a1] Cons.prems d by simp
qed simp

lemma closing_lines_Inl:
  "closing_lines now sync tr = Inl e \<longleftrightarrow> e = ZeroDivisionError \<and> tr_total tr \<noteq> 0 \<and> now = tr_started tr"
  by (auto simp: closing_lines_def stats_summary_def and_then_Inl_iff Let_def split: if_splits)

section \<open>Enforcement the kernel cannot give\<close>

lemma respond_kill_kernel_enforce:
  "respond_kill env c reason a = (v, a') \<Longrightarrow> ag_kernel_enforce a' = ag_kernel_enforce a"
  by (auto simp: respond_kill_def Let_def split: option.splits prod.splits sum.splits if_splits)

lemma on_verdict_kernel_enforce:
  assumes "on_verdict env story d a = (v, a')"
  shows "ag_kernel_enforce a' = ag_kernel_enforce a"
  using assms
  by (auto simp: on_verdict_def Let_def respond_warn_frame split: if_splits prod.splits sum.splits
      dest!: count_detection_frame(7) respond_kill_kernel_enforce)

lemma on_event_kernel_enforce:
  assumes "on_event env e a = (v, a')"
  shows "ag_kernel_enforce a' = ag_kernel_enforce a"
  using assms
  by (auto simp: on_event_def Let_def split: if_splits prod.splits sum.splits dest!: on_verdict_kernel_enforce)

lemma agent_handle_kernel_enforce:
  assumes "agent_handle env now_ns raw tr a = (v, tr', a')"
  shows "ag_kernel_enforce a' = ag_kernel_enforce a"
  using assms
  by (auto simp: agent_handle_def Let_def split: prod.splits option.splits dest!: on_event_kernel_enforce)

text \<open>A node whose kernel half was compiled without enforcement, and whose user-space half arms.\<close>

definition arming_in_vain :: "node \<Rightarrow> bool" where
  "arming_in_vain n = (\<not> nd_enforce n \<and> nd_signals n = [] \<and> ag_kernel_enforce (nd_agent n))"

lemma arming_in_vain_step: "arming_in_vain n \<Longrightarrow> node_step n n' \<Longrightarrow> arming_in_vain n'"
proof (rotate_tac, induction rule: node_step.induct)
  case (probe n sc t fam arg)
  then show ?case
    by (simp add: arming_in_vain_def node_probe_def Let_def run_probe_spec kernel_kills_def perf_submit_def dropped_def)
next
  case (deliver n before raw after env now_ns v tr a)
  then show ?case using agent_handle_kernel_enforce [OF deliver(2)] by (simp add: arming_in_vain_def)
next
  case (lose n before lost after tr a)
  then obtain mx where "a = (nd_agent n)\<lparr>ag_shared := (ag_shared (nd_agent n))\<lparr>sh_metrics := mx\<rparr>\<rparr>"
    using agent_lost_frame(1) by blast
  with lose show ?case by (simp add: arming_in_vain_def)
qed (simp_all add: arming_in_vain_def)

interpretation vain: step_invariant node_step arming_in_vain
  by unfold_locales (rule arming_in_vain_step)

section \<open>What the loop leaves behind\<close>

text \<open>The loop stops at the first call that is interrupted or raises, has then served every delivery
  before it in order, and the tracer has counted each record and each loss among them.\<close>

lemma poll_loop_stops:
  assumes "polls = map Served batches @ last_poll # later" and "fold serve (concat batches) (tr, a) = (tr', a')"
  shows "poll_loop polls (tr, a) =
     (case last_poll of
        Served batch \<Rightarrow> poll_loop later (fold serve batch (tr', a'))
      | Interrupted now sync \<Rightarrow> Some (closing_lines now sync tr', tr', a')
      | Raised e \<Rightarrow> Some (Inl e, tr', a'))"
    "tr_total tr' + tr_lost_total tr' = tr_total tr + tr_lost_total tr + sum_list (map reported (concat batches))"
  using assms serve_counts [OF assms(2)] by (simp_all add: poll_loop_served split: poll.split)

lemma closing_lines_printed:
  "closing_lines now sync tr = Inr lines \<Longrightarrow>
     \<exists>s. stats_summary now tr = Inr s \<and>
       lines = (CHR 0x0A # ''[stats] '' @ s) # map (\<lambda>cs. ''[cgroup-sync] '' @ sync_summary cs) (case sync of None \<Rightarrow> [] | Some cs \<Rightarrow> [cs])"
  by (auto simp: closing_lines_def and_then_Inr_iff split: option.split)

section \<open>Properties\<close>

text \<open>C24. On a kernel without the helpers, \<open>--kernel-enforce\<close> arms in vain: the startup says both that
  kernel enforcement is disabled and that it is enabled, every WARN whose write is accepted goes on
  announcing that the next escape call will be killed in the kernel, and in no history of the node
  is any call answered with a signal.\<close>
theorem arming_without_enforcement:
  assumes "main_setup cf document node now False env = Inr sys" and "cf_kernel_enforce cf"
    and "node_step\<^sup>*\<^sup>* (node_init sys) n"
    and "fst (arm (ae_accepts env') c (ag_armed (nd_agent n)))"
  shows "(Warning, ''kernel lacks the required helpers '' @ em_dash @
       '' kernel-enforce disabled, running detection only'') \<in> set (startup_log cf False) \<and>
     (Info, kernel_enforce_line) \<in> set (startup_log cf False) \<and>
     last (sh_effects (ag_shared (respond_warn env' c reason (nd_agent n)))) = Log Info (msg_armed c) \<and>
     nd_signals n = [] \<and> signals (run_probe sc (nd_enforce n) (node_maps n) t fam arg) = []"
proof -
  have "arming_in_vain (node_init sys)"
    using main_setup_fresh(3,4) [OF assms(1)] assms(2) by (simp add: arming_in_vain_def node_init_def)
  then have "arming_in_vain n" by (rule vain.reachable [OF assms(3)])
  moreover obtain armed where "arm (ae_accepts env') c (ag_armed (nd_agent n)) = (True, armed)"
    using assms(4) by (metis prod.collapse)
  ultimately show ?thesis
    using assms(2)
    by (simp add: arming_in_vain_def startup_log_def tracer_warning_def respond_warn_def Let_def log_msg_def
        run_probe_spec kernel_kills_def perf_submit_def dropped_def del: run_probe.simps)
qed

text \<open>Witness of C24: the shipped policy, and a \<open>setns\<close> that is only recorded.\<close>
theorem arming_without_enforcement_witness:
  "\<exists>sys n. main_setup \<lparr>cf_enforce = True, cf_no_k8s = False, cf_kernel_enforce = True,
       cf_no_kernel_filter = False, cf_sync_interval = 5, cf_metrics_port = 9102\<rparr> shipped_config ''worker-1'' 0 False
       (demo_env ''prod'') = Inr sys \<and>
     node_step\<^sup>*\<^sup>* (node_init sys) n \<and> nd_signals n = [] \<and>
     last (sh_effects (ag_shared (respond_warn (demo_aenv (demo_api ''prod'') demo_fs) 108000 ''openat'' (nd_agent n))))
       = Log Info (msg_armed 108000)"
proof -
  let ?cf = "\<lparr>cf_enforce = True, cf_no_k8s = False, cf_kernel_enforce = True,
       cf_no_kernel_filter = False, cf_sync_interval = 5, cf_metrics_port = 9102\<rparr>"
  let ?t = "\<lparr>t_ktime = 5000000000, t_pid_tgid = 0, t_cgroup_id = 108000, t_comm = ''nsenter'', t_ppid = 1\<rparr>"
  let ?env' = "demo_aenv (demo_api ''prod'') demo_fs"
  obtain sys where sys: "main_setup ?cf shipped_config ''worker-1'' 0 False (demo_env ''prod'') = Inr sys"
    using shipped_setup by blast
  let ?n = "node_probe Setns ?t 0 [] (node_init sys)"
  have run: "node_step\<^sup>*\<^sup>* (node_init sys) ?n"
    by (rule r_into_rtranclp) (rule probe)
  have "fst (arm (ae_accepts ?env') 108000 (ag_armed (nd_agent ?n)))"
    by (simp add: arm_def demo_aenv_def table_put_def always_accepts_def)
  from arming_without_enforcement [OF sys _ run this, of "''openat''"] sys run show ?thesis by auto
qed

end
