(* ===== verification/Monitor.thy ===== *)
theory Monitor
  imports Startup
begin

text \<open>
  What the agent does about a container, as a small machine of its own: the alert level last acted on
  and whether the container is armed. It is the specification \<open>on_event\<close> has in the comments of
  \<open>main.py\<close>: act on a change of the verdict only, arm on WARN, forget everything once the pod is
  dead. The lemmas show that the agent, with its stories, caches, killer and shared objects, is this
  machine for every container at once, and carry the machine's invariants over to the node.
\<close>

section \<open>The specification\<close>

type_synonym monitor = "decision option \<times> bool"

text \<open>
  The reaction to a verdict. \<open>ok\<close> says whether the response succeeded: for WARN that the cgroup could
  be armed, for KILL that the killer reported the pod as killed (\<open>response_ok\<close> below).
\<close>

fun react :: "bool \<Rightarrow> decision \<Rightarrow> bool \<Rightarrow> monitor \<Rightarrow> monitor" where
  "react enforce ALLOW ok (level, armed) = (None, armed)"
| "react enforce WARN ok (level, armed) =
     (if level = Some WARN then (level, armed) else (Some WARN, armed \<or> enforce \<and> ok))"
| "react enforce KILL ok (level, armed) =
     (if level = Some KILL then (level, armed) else if ok then (None, False) else (Some KILL, armed))"

section \<open>The agent as monitors\<close>

definition monitor_of :: "u64 \<Rightarrow> agent \<Rightarrow> monitor" where
  "monitor_of c a = (ag_last_decision a (uint c), ag_armed a c \<noteq> None)"

text \<open>The verdict a record leads to, if it is one of a pod and the policy can be evaluated.\<close>

definition verdict :: "aenv \<Rightarrow> int \<Rightarrow> event_t \<Rightarrow> agent \<Rightarrow> decision option" where
  "verdict env now_ns raw a =
     (let e = parse_event now_ns raw
      in if is_noise (ev_comm e) \<or> \<not> sees_pod env e a then None
         else (case evaluate (ag_policy a) (event_story env e a) of Inl err \<Rightarrow> None | Inr d \<Rightarrow> Some d))"

text \<open>
  Whether the response to \<open>d\<close> succeeds, in the state the response starts from: the detection could be
  counted, and then for WARN the armed table takes the write, for KILL the killer's \<open>handle_kill\<close> of
  this very call returns True.
\<close>

definition kill_reported :: "aenv \<Rightarrow> int \<Rightarrow> string \<Rightarrow> agent \<Rightarrow> bool" where
  "kill_reported env cgroup_id reason a =
     (case ag_killer a of
        None \<Rightarrow> False
      | Some k \<Rightarrow> fst (handle_kill (kenv.truncate env) cgroup_id reason k
                     (log_msg Critical (msg_kill cgroup_id reason) (ag_shared a))) = Inr True)"

definition response_ok :: "aenv \<Rightarrow> u64 \<Rightarrow> attack_story \<Rightarrow> decision \<Rightarrow> agent \<Rightarrow> bool" where
  "response_ok env c story d a =
     (case count_detection env (uint c) d a of
        (Inl err, a1) \<Rightarrow> False
      | (Inr u, a1) \<Rightarrow>
          (case d of
             ALLOW \<Rightarrow> True
           | WARN \<Rightarrow> ae_accepts env (ag_armed a) c
           | KILL \<Rightarrow> kill_reported env (uint c) (policy_reason story) a1))"

text \<open>The agent once the tracer has accounted for a record, and the success of the response to it.\<close>

definition accounted_agent :: "int \<Rightarrow> event_t \<Rightarrow> tracer \<Rightarrow> agent \<Rightarrow> agent" where
  "accounted_agent now_ns raw tr a =
     a\<lparr>ag_shared := (ag_shared a)\<lparr>sh_metrics := snd (snd (handle_event now_ns raw tr (sh_metrics (ag_shared a))))\<rparr>\<rparr>"

definition responded :: "aenv \<Rightarrow> int \<Rightarrow> event_t \<Rightarrow> tracer \<Rightarrow> agent \<Rightarrow> decision \<Rightarrow> bool" where
  "responded env now_ns raw tr a d =
     (let e = parse_event now_ns raw; a = accounted_agent now_ns raw tr a
      in response_ok env (raw_cgroup_id raw) (event_story env e a) d (scored_agent env e a))"

lemma agent_handle_event:
  "agent_handle env now_ns raw tr a =
     (let tr' = fst (snd (handle_event now_ns raw tr (sh_metrics (ag_shared a)))); a = accounted_agent now_ns raw tr a
      in if is_noise (ev_comm (parse_event now_ns raw)) then (Inr (), tr', a)
         else (case on_event env (parse_event now_ns raw) a of (v, a') \<Rightarrow> (v, tr', a')))"
  using handle_event_delivers [of now_ns raw tr "sh_metrics (ag_shared a)"]
  by (simp add: agent_handle_def accounted_agent_def split_beta Let_def)

lemma respond_kill_monitor:
  assumes "respond_kill env (uint c) reason a = (v, a')"
  shows "monitor_of c a' = (if kill_reported env (uint c) reason a then (None, False) else monitor_of c a)"
proof (cases "ag_killer a")
  case None
  with assms show ?thesis by (auto simp: respond_kill_def monitor_of_def kill_reported_def)
next
  case (Some k)
  obtain w k1 sh1 where h: "handle_kill (kenv.truncate env) (uint c) reason k
      (log_msg Critical (msg_kill (uint c) reason) (ag_shared a)) = (w, k1, sh1)"
    by (metis prod.exhaust)
  with assms Some show ?thesis
    by (auto simp: respond_kill_def monitor_of_def disarm_def Let_def kill_reported_def split: sum.splits)
qed

lemma respond_warn_monitor:
  "monitor_of c (respond_warn env (uint c) reason a) =
     (ag_last_decision a (uint c), ag_armed a c \<noteq> None \<or> ag_kernel_enforce a \<and> ae_accepts env (ag_armed a) c)"
  by (auto simp: monitor_of_def respond_warn_def arm_def table_put_def Let_def)

lemma count_detection_last:
  "count_detection env c d (a\<lparr>ag_last_decision := f\<rparr>) =
     (fst (count_detection env c d a), snd (count_detection env c d a)\<lparr>ag_last_decision := f\<rparr>)"
  by (simp add: count_detection_def agent_api_def split_beta Let_def split: sum.split)

lemma kill_reported_last [simp]:
  "kill_reported env c reason (a\<lparr>ag_last_decision := f\<rparr>) = kill_reported env c reason a"
  by (simp add: kill_reported_def split: option.split)

lemma on_verdict_monitor:
  assumes "on_verdict env story d a = (v, a')" "st_cgroup_id story = uint c"
  shows "monitor_of c a' = react (ag_kernel_enforce a) d (response_ok env c story d a) (monitor_of c a)"
proof (cases "d = ALLOW \<or> ag_last_decision a (uint c) = Some d")
  case True
  with assms show ?thesis by (cases d) (auto simp: on_verdict_def monitor_of_def)
next
  case False
  let ?f = "(ag_last_decision a)(uint c \<mapsto> d)"
  obtain w a1 where cd: "count_detection env (uint c) d a = (w, a1)" by fastforce
  let ?a2 = "a1\<lparr>ag_last_decision := ?f\<rparr>"
  have cd': "count_detection env (uint c) d (a\<lparr>ag_last_decision := ?f\<rparr>) = (w, ?a2)"
    by (simp add: count_detection_last cd)
  note f = count_detection_frame [OF cd]
  have a2: "monitor_of c ?a2 = (Some d, ag_armed a c \<noteq> None)" by (simp add: monitor_of_def f)
  have last: "ag_last_decision a (uint c) \<noteq> Some d" "d \<noteq> ALLOW" using False by simp_all
  show ?thesis
  proof (cases w)
    case (Inl e)
    then have "a' = ?a2" using assms last cd' by (auto simp: on_verdict_def Let_def)
    moreover have "\<not> response_ok env c story d a" using Inl by (simp add: response_ok_def cd)
    ultimately show ?thesis using a2 last by (cases d) (simp_all add: monitor_of_def)
  next
    case (Inr u)
    show ?thesis
    proof (cases d)
      case WARN
      then have "a' = respond_warn env (uint c) (policy_reason story) ?a2"
        using assms last cd' Inr by (auto simp: on_verdict_def Let_def)
      moreover have "response_ok env c story d a = ae_accepts env (ag_armed a) c"
        unfolding response_ok_def cd by (simp add: Inr WARN)
      ultimately show ?thesis
        using last WARN by (simp add: respond_warn_monitor f) (simp add: monitor_of_def)
    next
      case KILL
      then have "respond_kill env (uint c) (policy_reason story) ?a2 = (v, a')"
        using assms last cd' Inr by (auto simp: on_verdict_def Let_def)
      from respond_kill_monitor [OF this]
      have "monitor_of c a' = (if response_ok env c story d a then (None, False) else (Some KILL, ag_armed a c \<noteq> None))"
        using a2 unfolding response_ok_def cd by (simp add: Inr KILL)
      with last KILL show ?thesis by (simp add: monitor_of_def)
    qed (use last in simp)
  qed
qed

lemma monitor_of_frame [simp]:
  "monitor_of c (a\<lparr>ag_shared := sh\<rparr>) = monitor_of c a"
  "monitor_of c (scored_agent env e a) = monitor_of c a"
  "monitor_of c (update_gauges s a) = monitor_of c a"
  by (simp_all add: monitor_of_def)

lemma monitor_of_about: "about c a' = about c a \<Longrightarrow> monitor_of c a' = monitor_of c a"
  by (simp add: about_def monitor_of_def)

text \<open>The verdict does not depend on the metrics collector.\<close>

lemma accounted_frame [simp]:
  "monitor_of c (accounted_agent now_ns raw tr a) = monitor_of c a"
  "sees_pod env e (accounted_agent now_ns raw tr a) = sees_pod env e a"
  "event_story env e (accounted_agent now_ns raw tr a) = event_story env e a"
  "ag_policy (accounted_agent now_ns raw tr a) = ag_policy a"
  "ag_killer (accounted_agent now_ns raw tr a) = ag_killer a"
  "ag_kernel_enforce (accounted_agent now_ns raw tr a) = ag_kernel_enforce a"
  "ag_last_decision (accounted_agent now_ns raw tr a) = ag_last_decision a"
  "acts (ag_shared (accounted_agent now_ns raw tr a)) = acts (ag_shared a)"
  "agent_ok (accounted_agent now_ns raw tr a) = agent_ok a"
  by (simp_all add: accounted_agent_def monitor_of_def sees_pod_def event_story_def agent_ok_def)

lemma no_verdict_monitor:
  assumes "agent_handle env now_ns raw tr a = (v, tr', a')" "verdict env now_ns raw a = None"
  shows "monitor_of c a' = monitor_of c a"
proof -
  let ?e = "parse_event now_ns raw" and ?a = "accounted_agent now_ns raw tr a"
  show ?thesis
  proof (cases "is_noise (ev_comm ?e)")
    case True
    with assms(1) show ?thesis by (auto simp: agent_handle_event Let_def)
  next
    case False
    then have o: "on_event env ?e ?a = (v, a')"
      using assms(1) by (auto simp: agent_handle_event Let_def split: prod.splits)
    show ?thesis
    proof (cases "sees_pod env ?e a")
      case False
      with o have "\<exists>sh. a' = ?a\<lparr>ag_shared := sh\<rparr>" by (auto simp: on_event_host)
      then show ?thesis by auto
    next
      case True
      then obtain err where "evaluate (ag_policy a) (event_story env ?e a) = Inl err"
        using assms(2) False by (auto simp: verdict_def split: sum.splits)
      with True o have "a' = scored_agent env ?e ?a" by (auto simp: on_event_pod)
      then show ?thesis by simp
    qed
  qed
qed

text \<open>With a verdict, handling the record comes down to \<open>on_verdict\<close>.\<close>

lemma agent_handle_verdict:
  assumes "agent_handle env now_ns raw tr a = (v, tr', a')" "verdict env now_ns raw a = Some d" "agent_ok a"
  shows "on_verdict env (event_story env (parse_event now_ns raw) (accounted_agent now_ns raw tr a)) d
      (scored_agent env (parse_event now_ns raw) (accounted_agent now_ns raw tr a)) = (v, a')"
    "st_cgroup_id (event_story env (parse_event now_ns raw) (accounted_agent now_ns raw tr a)) = uint (raw_cgroup_id raw)"
proof -
  have "\<not> is_noise (ev_comm (parse_event now_ns raw))" "sees_pod env (parse_event now_ns raw) a"
    "evaluate (ag_policy a) (event_story env (parse_event now_ns raw) a) = Inr d"
    using assms(2) by (auto simp: verdict_def Let_def split: if_splits sum.splits)
  then show "on_verdict env (event_story env (parse_event now_ns raw) (accounted_agent now_ns raw tr a)) d
      (scored_agent env (parse_event now_ns raw) (accounted_agent now_ns raw tr a)) = (v, a')"
    using assms(1) by (auto simp: agent_handle_event Let_def on_event_pod split: prod.splits)
  show "st_cgroup_id (event_story env (parse_event now_ns raw) (accounted_agent now_ns raw tr a)) = uint (raw_cgroup_id raw)"
    using event_story_id [OF assms(3)] by (simp add: parse_event_def)
qed

lemma verdict_monitor:
  assumes "agent_handle env now_ns raw tr a = (v, tr', a')" "verdict env now_ns raw a = Some d" "agent_ok a"
  shows "monitor_of (raw_cgroup_id raw) a' =
     react (ag_kernel_enforce a) d (responded env now_ns raw tr a d) (monitor_of (raw_cgroup_id raw) a)"
  using on_verdict_monitor [OF agent_handle_verdict [OF assms]] by (simp add: responded_def Let_def)

text \<open>A verdict that repeats the level last acted on is ignored.\<close>

lemma repeated_verdict_ignored:
  assumes "agent_handle env now_ns raw tr a = (v, tr', a')" "verdict env now_ns raw a = Some d" "agent_ok a"
    and "ag_last_decision a (uint (raw_cgroup_id raw)) = Some d" "d \<noteq> ALLOW"
  shows "v = Inr ()" "a' = scored_agent env (parse_event now_ns raw) (accounted_agent now_ns raw tr a)"
proof -
  note h = agent_handle_verdict [OF assms(1-3)]
  let ?s = "scored_agent env (parse_event now_ns raw) (accounted_agent now_ns raw tr a)"
  show "v = Inr ()" "a' = ?s" using on_verdict_repeated [of ?s _ d] h assms(4,5) by auto
qed

section \<open>From steps to histories\<close>

text \<open>
  A step relation whose every step is, through \<open>abs\<close>, a step of another one or none: then its histories
  are histories of the other one, whose invariants hold of it.
\<close>

locale simulation = step_invariant step inv
  for step :: "'s \<Rightarrow> 's \<Rightarrow> bool" and inv :: "'s \<Rightarrow> bool" +
  fixes abs_step :: "'t \<Rightarrow> 't \<Rightarrow> bool" and abs :: "'s \<Rightarrow> 't"
  assumes simulated: "inv s \<Longrightarrow> step s s' \<Longrightarrow> abs s' = abs s \<or> abs_step (abs s) (abs s')"
begin

lemma run_simulated: "step\<^sup>*\<^sup>* s s' \<Longrightarrow> inv s \<Longrightarrow> abs_step\<^sup>*\<^sup>* (abs s) (abs s')"
proof (induction rule: rtranclp_induct)
  case (step s1 s2)
  then have "inv s1" by (blast intro: reachable)
  with step simulated [of s1 s2] show ?case by (auto intro: rtranclp.rtrancl_into_rtrancl)
qed simp

lemma invariant_transferred:
  assumes "step_invariant abs_step P" "step\<^sup>*\<^sup>* s s'" "inv s" "P (abs s)"
  shows "P (abs s')"
  using step_invariant.reachable [OF assms(1) run_simulated [OF assms(2,3)] assms(4)] .

end

definition monitor_step :: "bool \<Rightarrow> monitor \<Rightarrow> monitor \<Rightarrow> bool" where
  "monitor_step enforce s s' = (\<exists>d ok. s' = react enforce d ok s)"

definition monitored :: "bool \<Rightarrow> node \<Rightarrow> bool" where
  "monitored enforce n = (agent_ok (nd_agent n) \<and> ag_kernel_enforce (nd_agent n) = enforce)"

lemma agent_lost_kernel_enforce:
  "agent_lost count tr a = (tr', a') \<Longrightarrow>
     ag_kernel_enforce a' = ag_kernel_enforce a \<and> monitor_of c a' = monitor_of c a"
  using agent_lost_frame(1) by fastforce

lemma monitored_step: "monitored enforce n \<Longrightarrow> node_step n n' \<Longrightarrow> monitored enforce n'"
  unfolding monitored_def
proof (intro conjI)
  assume m: "agent_ok (nd_agent n) \<and> ag_kernel_enforce (nd_agent n) = enforce" and s: "node_step n n'"
  show "agent_ok (nd_agent n')" using node_step_ok [OF s] m by blast
  from s have "ag_kernel_enforce (nd_agent n') = ag_kernel_enforce (nd_agent n)"
    by cases (auto simp: node_probe_def Let_def dest: agent_handle_kernel_enforce agent_lost_kernel_enforce)
  with m show "ag_kernel_enforce (nd_agent n') = enforce" by simp
qed

lemma agent_handle_simulated:
  assumes "agent_handle env now_ns raw tr a = (v, tr', a')" "agent_ok a"
  shows "monitor_of c a' = monitor_of c a \<or> monitor_step (ag_kernel_enforce a) (monitor_of c a) (monitor_of c a')"
proof (cases "verdict env now_ns raw a")
  case None
  then show ?thesis using no_verdict_monitor [OF assms(1)] by blast
next
  case (Some d)
  show ?thesis
  proof (cases "raw_cgroup_id raw = c")
    case True
    with verdict_monitor [OF assms(1) Some assms(2)] show ?thesis unfolding monitor_step_def by blast
  next
    case False
    then have "about c a' = about c a" by (intro agent_handle_about [OF assms(2,1)]) (rule not_sym)
    then show ?thesis by (rule disjI1 [OF monitor_of_about])
  qed
qed

interpretation monitors: simulation node_step "monitored enforce" "monitor_step enforce" "\<lambda>n. monitor_of c (nd_agent n)"
  for enforce c
proof
  fix n n'
  assume m: "monitored enforce n" and s: "node_step n n'"
  then show "monitored enforce n'" by (rule monitored_step)
  from s show "monitor_of c (nd_agent n') = monitor_of c (nd_agent n) \<or>
      monitor_step enforce (monitor_of c (nd_agent n)) (monitor_of c (nd_agent n'))"
  proof cases
    case (deliver before raw after env now_ns v tr a)
    with agent_handle_simulated [OF deliver(3), of c] m show ?thesis by (auto simp: monitored_def)
  next
    case (lose before lost after tr a)
    with agent_lost_kernel_enforce [OF lose(3), of c] show ?thesis by simp
  qed (simp_all add: node_probe_def Let_def)
qed

text \<open>Two invariants of the machine: the level is an alert, and nothing is armed that may not be.\<close>

definition level_ok :: "bool \<Rightarrow> monitor \<Rightarrow> bool" where
  "level_ok enforce s = (fst s \<noteq> Some ALLOW \<and> (snd s \<longrightarrow> enforce))"

interpretation levels: step_invariant "monitor_step enforce" "level_ok enforce" for enforce
proof
  fix s s'
  assume "level_ok enforce s" "monitor_step enforce s s'"
  then obtain d ok where "s' = react enforce d ok s" "level_ok enforce s" by (auto simp: monitor_step_def)
  then show "level_ok enforce s'" by (cases d; cases s) (auto simp: level_ok_def)
qed

section \<open>A verdict that stays\<close>

lemma seen_pod_again:
  "fst (is_pod_cgroup fs c r) \<Longrightarrow> fst (is_pod_cgroup fs c (snd (is_pod_cgroup fs c r)))"
  by (cases "is_pod_cgroup fs c r") (simp add: is_pod_cgroup_again)

text \<open>A verdict that raised is remembered, one that repeats it leaves policy and pod as they are.\<close>

lemma lost_verdict_remembered:
  assumes "agent_handle env now_ns raw tr a = (Inl err, tr', a')" "verdict env now_ns raw a = Some d" "agent_ok a"
  shows "ag_last_decision a' (uint (raw_cgroup_id raw)) = Some d"
  using on_verdict_lost [OF agent_handle_verdict(1) [OF assms]] agent_handle_verdict(2) [OF assms] by simp

lemma repeated_verdict_frame:
  assumes "agent_handle env now_ns raw tr a = (v, tr', a')" "verdict env now_ns raw a = Some d" "agent_ok a"
    and "ag_last_decision a (uint (raw_cgroup_id raw)) = Some d" "d \<noteq> ALLOW"
    and "fst (is_pod_cgroup (ke_fs env) (uint (raw_cgroup_id raw)) (sh_resolver (ag_shared a)))"
  shows "ag_policy a' = ag_policy a"
    "fst (is_pod_cgroup (ke_fs env) (uint (raw_cgroup_id raw)) (sh_resolver (ag_shared a')))"
  unfolding repeated_verdict_ignored(2) [OF assms(1-5)]
  using seen_pod_again [OF assms(6)] by (simp_all add: accounted_agent_def parse_event_def)

text \<open>
  A container as long as nothing but KILL is said about it: a step handles one record, of any
  container, and a verdict on a record of this one is KILL.
\<close>

definition only_kill_step :: "u64 \<Rightarrow> tracer \<times> agent \<Rightarrow> tracer \<times> agent \<Rightarrow> bool" where
  "only_kill_step c s s' =
     (\<exists>env now_ns raw v. agent_handle env now_ns raw (fst s) (snd s) = (v, fst s', snd s') \<and>
        (raw_cgroup_id raw = c \<longrightarrow> verdict env now_ns raw (snd s) \<in> {None, Some KILL}))"

definition kill_delivered :: "u64 \<Rightarrow> tracer \<times> agent \<Rightarrow> bool" where
  "kill_delivered c s = (agent_ok (snd s) \<and> ag_last_decision (snd s) (uint c) = Some KILL)"

lemma kill_delivered_step:
  assumes "kill_delivered c s" "only_kill_step c s s'"
  shows "kill_delivered c s'"
proof -
  obtain env now_ns raw v where h: "agent_handle env now_ns raw (fst s) (snd s) = (v, fst s', snd s')"
    and d: "raw_cgroup_id raw = c \<longrightarrow> verdict env now_ns raw (snd s) \<in> {None, Some KILL}"
    using assms(2) unfolding only_kill_step_def by blast
  have ok: "agent_ok (snd s)" and last: "fst (monitor_of c (snd s)) = Some KILL"
    using assms(1) by (simp_all add: kill_delivered_def monitor_of_def)
  have "monitor_of c (snd s') = monitor_of c (snd s)"
  proof (cases "verdict env now_ns raw (snd s)")
    case None
    with no_verdict_monitor [OF h] show ?thesis by simp
  next
    case (Some d')
    show ?thesis
    proof (cases "raw_cgroup_id raw = c")
      case True
      with Some d have "verdict env now_ns raw (snd s) = Some KILL" by simp
      from verdict_monitor [OF h this ok] last True show ?thesis by (cases "monitor_of c (snd s)") simp
    next
      case False
      then have "about c (snd s') = about c (snd s)" by (intro agent_handle_about [OF ok h]) (rule not_sym)
      then show ?thesis by (rule monitor_of_about)
    qed
  qed
  with last agent_handle_ok [OF ok h] show ?thesis by (simp add: kill_delivered_def monitor_of_def)
qed

interpretation delivered: step_invariant "only_kill_step c" "kill_delivered c" for c
  by unfold_locales (rule kill_delivered_step)

section \<open>The demo deployment\<close>

lemma demo_verdict_kill:
  assumes "agent_ok a" "ag_policy a = demo_policy" "fst (is_pod_cgroup fs 108000 (sh_resolver (ag_shared a)))"
  shows "verdict (demo_aenv api fs) 6000000000 (demo_raw ''nsenter'' 4) a = Some KILL"
proof -
  define env raw where "env = demo_aenv api fs" and "raw = demo_raw ''nsenter'' 4"
  define e where "e = parse_event 6000000000 raw"
  have e: "ev_comm e = decode_replace (c_string 16 ''nsenter'')" "ev_cgroup_id e = 108000" "ev_ts e = 5"
    by (simp_all add: e_def raw_def parse_event_def demo_raw_def)
  have "\<not> is_noise (ev_comm e)"
    by (simp add: e c_string_def decode_ascii byte_def is_noise_def noise_comms_def
        noise_comm_prefixes_def startswith_def isdigit_ascii)
  moreover have "sees_pod env e a"
    using assms(3) by (simp add: sees_pod_def e env_def demo_aenv_def)
  moreover have "evaluate (ag_policy a) (event_story env e a) = Inr KILL"
    unfolding event_story_def
  proof (rule fresh_event_kills)
    show "correlator_ok (ag_stories a)" using assms(1) by (simp add: agent_ok_def)
    show "numeric (kill_threshold (ag_policy a)) = Some 90" by (simp add: assms(2) demo_policy_def numeric_def)
    show "(90 :: rat) \<le> of_int (score_event e)"
      using red_line_score [of Setns raw 6000000000] by (simp add: e_def raw_def demo_raw_def)
    show "ae_clock env - correlation_window_sec \<le> ev_ts e"
      by (simp add: e env_def demo_aenv_def correlation_window_sec_def)
  qed
  ultimately have "verdict env 6000000000 raw a = Some KILL" by (simp add: verdict_def e_def)
  then show ?thesis by (simp only: env_def raw_def)
qed

lemma demo_verdict:
  "verdict (demo_aenv (demo_api ''prod'') demo_fs) 6000000000 (demo_raw ''nsenter'' 4)
     (demo_agent (demo_resolved ''prod'')) = Some KILL"
  using knows_pod_is_pod [OF demo_knows_pod]
  by (intro demo_verdict_kill [OF demo_agent_ok]) (simp_all add: demo_agent_def)

text \<open>The first \<open>nsenter\<close> of a container while the API server answers 503.\<close>

lemma demo_kill_lost:
  assumes "agent_handle (demo_aenv (\<lambda>n. Inl (ApiError 503)) demo_fs) 6000000000 (demo_raw ''nsenter'' 4) tr
      (demo_agent new_resolver) = (v, tr', a')"
  shows "v = Inl (ApiError 503)" "ag_policy a' = demo_policy"
    "fst (is_pod_cgroup demo_fs 108000 (sh_resolver (ag_shared a')))"
proof -
  let ?env = "demo_aenv (\<lambda>n. Inl (ApiError 503)) demo_fs"
  let ?raw = "demo_raw ''nsenter'' 4" and ?a = "demo_agent new_resolver"
  define e where "e = parse_event 6000000000 ?raw"
  define sc where "sc = scored_agent ?env e (accounted_agent 6000000000 ?raw tr ?a)"
  define story where "story = event_story ?env e (accounted_agent 6000000000 ?raw tr ?a)"
  let ?p = "''/sys/fs/cgroup/kubepods/pod775d7ebb-eae8-4b34-b3cf-ee1b0f8b6ea4''"
  have pod: "is_pod_cgroup demo_fs 108000 new_resolver = (True, new_resolver\<lparr>path_cache := [(108000, ?p)]\<rparr>)"
    by (simp add: is_pod_cgroup_eq new_resolver_def demo_find)
  have judged: "verdict ?env 6000000000 ?raw ?a = Some KILL"
    by (rule demo_verdict_kill [OF demo_agent_ok]) (simp_all add: demo_agent_def pod)
  note h = agent_handle_verdict [OF assms judged demo_agent_ok, folded e_def, folded sc_def story_def]
  have id: "st_cgroup_id story = 108000" using h(2) by (simp add: demo_raw_def)
  have r: "sh_resolver (ag_shared sc) = new_resolver\<lparr>path_cache := [(108000, ?p)]\<rparr>"
    unfolding sc_def by (simp add: accounted_agent_def e_def parse_event_def demo_raw_def demo_aenv_def demo_agent_def pod)
  have fields: "sh_metrics (ag_shared sc) = None" "ag_killer sc = Some demo_killer" "ag_last_decision sc = Map.empty"
    "ag_policy sc = demo_policy"
    by (simp_all add: sc_def accounted_agent_def demo_agent_def handle_event_def Let_def)
  let ?sh = "log_msg Critical (msg_kill 108000 (policy_reason story)) (ag_shared sc)"
  have raises: "fst (resolve_pod (kenv.truncate ?env) 108000 ?sh) = Inl (ApiError 503)"
    by (simp add: resolve_pod_def resolve_def demo_aenv_def kenv.truncate_def r new_resolver_def
        find_cgroup_path_def demo_uid lookup_pod_def)
  obtain sh' where k: "handle_kill (kenv.truncate ?env) 108000 (policy_reason story) demo_killer ?sh
      = (Inl (ApiError 503), demo_killer, sh')"
    using handle_kill_api_failure [OF raises] by blast
  have "map_of (path_cache (sh_resolver sh')) 108000 = Some ?p"
    by (rule path_kept.handle_kill_keeps [OF k]) (simp_all add: r)
  then have cached: "fst (is_pod_cgroup demo_fs 108000 (sh_resolver sh'))" by (simp add: is_pod_cgroup_eq)
  have "v = Inl (ApiError 503) \<and> ag_policy a' = demo_policy \<and> ag_shared a' = sh'"
    using h(1) by (auto simp: on_verdict_def id fields count_detection_def respond_kill_def k Let_def)
  with cached show "v = Inl (ApiError 503)" "ag_policy a' = demo_policy"
    "fst (is_pod_cgroup demo_fs 108000 (sh_resolver (ag_shared a')))" by simp_all
qed

section \<open>Properties\<close>

text \<open>C4. The agent is a monitor for every container: handling a record changes the alert level and
  the arming of the record's own container exactly as the specification reacts to the verdict on it
  and to the success of the response, which for WARN means that the armed table takes the write and
  for KILL that this call of \<open>handle_kill\<close> returns True; it changes nothing for any other container,
  nor without a verdict.\<close>
theorem agent_refines_monitor:
  assumes "agent_handle env now_ns raw tr a = (v, tr', a')" and "agent_ok a"
  shows "monitor_of c a' =
     (case verdict env now_ns raw a of
        None \<Rightarrow> monitor_of c a
      | Some d \<Rightarrow>
          (if raw_cgroup_id raw = c
           then react (ag_kernel_enforce a) d (responded env now_ns raw tr a d) (monitor_of c a)
           else monitor_of c a))"
proof (cases "verdict env now_ns raw a")
  case None
  then show ?thesis using no_verdict_monitor [OF assms(1)] by simp
next
  case (Some d)
  show ?thesis
  proof (cases "raw_cgroup_id raw = c")
    case True
    with verdict_monitor [OF assms(1) Some assms(2)] Some show ?thesis by simp
  next
    case False
    then have "about c a' = about c a" by (intro agent_handle_about [OF assms(2,1)]) (rule not_sym)
    with Some False monitor_of_about [of c a' a] show ?thesis by simp
  qed
qed

text \<open>Witness of C4: \<open>nsenter\<close> in the demo deployment.\<close>
theorem agent_refines_monitor_witness:
  "\<exists>v tr' a'. agent_handle (demo_aenv (demo_api ''prod'') demo_fs) 6000000000 (demo_raw ''nsenter'' 4)
       (snd (tracer_init False True 0)) (demo_agent (demo_resolved ''prod'')) = (v, tr', a') \<and>
     monitor_of 108000 a' =
       react True KILL
         (responded (demo_aenv (demo_api ''prod'') demo_fs) 6000000000 (demo_raw ''nsenter'' 4)
            (snd (tracer_init False True 0)) (demo_agent (demo_resolved ''prod'')) KILL) (None, False)"
proof -
  let ?a = "demo_agent (demo_resolved ''prod'')"
  obtain v tr' a' where h: "agent_handle (demo_aenv (demo_api ''prod'') demo_fs) 6000000000 (demo_raw ''nsenter'' 4)
      (snd (tracer_init False True 0)) ?a = (v, tr', a')"
    by (metis prod.exhaust)
  have m: "monitor_of 108000 ?a = (None, False)" and ke: "ag_kernel_enforce ?a = True"
    by (simp_all add: monitor_of_def demo_agent_def)
  have c: "raw_cgroup_id (demo_raw ''nsenter'' 4) = 108000" by (simp add: demo_raw_def)
  from agent_refines_monitor [OF h demo_agent_ok, of 108000] h show ?thesis
    unfolding demo_verdict m ke c option.case if_P [OF refl] by (intro exI conjI)
qed

text \<open>C28. A kill lost stays lost: when handling a record judged KILL raises (the API server could not
  be asked for the pod), the verdict is already remembered as delivered; and as long as no verdict
  on the container is ALLOW or WARN, whatever records of it and of others are handled in between,
  every later record of it that is again judged KILL is ignored: no process is killed, no Event
  created, nothing queued.\<close>
theorem failed_kill_never_retried:
  assumes "agent_ok a" and "verdict env now_ns raw a = Some KILL"
    and "agent_handle env now_ns raw tr a = (Inl err, tr1, a1)"
    and "(only_kill_step (raw_cgroup_id raw))\<^sup>*\<^sup>* (tr1, a1) (tr2, a2)"
    and "raw_cgroup_id raw' = raw_cgroup_id raw" and "verdict env' now_ns' raw' a2 = Some KILL"
    and "agent_handle env' now_ns' raw' tr2 a2 = (v, tr3, a3)"
  shows "ag_last_decision a2 (uint (raw_cgroup_id raw)) = Some KILL \<and> v = Inr () \<and>
     kills (sh_effects (ag_shared a3)) = kills (sh_effects (ag_shared a2)) \<and>
     created_events (sh_effects (ag_shared a3)) = created_events (sh_effects (ag_shared a2)) \<and>
     ag_killer a3 = ag_killer a2"
proof -
  have "ag_last_decision a1 (uint (raw_cgroup_id raw)) = Some KILL"
    by (rule lost_verdict_remembered [OF assms(3,2,1)])
  then have "kill_delivered (raw_cgroup_id raw) (tr1, a1)"
    using agent_handle_ok [OF assms(1,3)] by (simp add: kill_delivered_def)
  then have "kill_delivered (raw_cgroup_id raw) (tr2, a2)" by (rule delivered.reachable [OF assms(4)])
  then have "agent_ok a2" and last: "ag_last_decision a2 (uint (raw_cgroup_id raw)) = Some KILL"
    by (simp_all add: kill_delivered_def)
  from repeated_verdict_ignored [OF assms(7,6) this(1)] last assms(5)
  have "v = Inr ()" "acts (ag_shared a3) = acts (ag_shared a2)" "ag_killer a3 = ag_killer a2" by simp_all
  with last show ?thesis by (simp add: acts_def)
qed

text \<open>Witness of C28: the API server answers 503 to the first lookup of the pod and works again at the
  third \<open>nsenter\<close>, the second one in between having been ignored as well.\<close>
theorem failed_kill_never_retried_witness:
  "\<exists>tr1 a1 v2 tr2 a2 v3 tr3 a3.
     agent_handle (demo_aenv (\<lambda>n. Inl (ApiError 503)) demo_fs) 6000000000 (demo_raw ''nsenter'' 4)
       (snd (tracer_init False True 0)) (demo_agent new_resolver) = (Inl (ApiError 503), tr1, a1) \<and>
     agent_handle (demo_aenv (demo_api ''prod'') demo_fs) 6000000000 (demo_raw ''nsenter'' 4) tr1 a1 = (v2, tr2, a2) \<and>
     agent_handle (demo_aenv (demo_api ''prod'') demo_fs) 6000000000 (demo_raw ''nsenter'' 4) tr2 a2 = (v3, tr3, a3) \<and>
     v3 = Inr () \<and> kills (sh_effects (ag_shared a3)) = kills (sh_effects (ag_shared a2)) \<and>
     ag_killer a3 = ag_killer a2"
proof -
  let ?down = "demo_aenv (\<lambda>n. Inl (ApiError 503)) demo_fs" and ?up = "demo_aenv (demo_api ''prod'') demo_fs"
  let ?raw = "demo_raw ''nsenter'' 4" and ?a = "demo_agent new_resolver" and ?tr = "snd (tracer_init False True 0)"
  have c: "raw_cgroup_id ?raw = 108000" by (simp add: demo_raw_def)
  obtain v1 tr1 a1 where h1: "agent_handle ?down 6000000000 ?raw ?tr ?a = (v1, tr1, a1)" by (metis prod.exhaust)
  note d1 = demo_kill_lost [OF h1]
  have k0: "verdict ?down 6000000000 ?raw ?a = Some KILL"
    by (rule demo_verdict_kill [OF demo_agent_ok]) (simp_all add: demo_agent_def is_pod_cgroup_eq new_resolver_def demo_find)
  have ok1: "agent_ok a1" by (rule agent_handle_ok [OF demo_agent_ok h1])
  have k1: "verdict ?up 6000000000 ?raw a1 = Some KILL" by (rule demo_verdict_kill [OF ok1 d1(2,3)])
  obtain v2 tr2 a2 where h2: "agent_handle ?up 6000000000 ?raw tr1 a1 = (v2, tr2, a2)" by (metis prod.exhaust)
  have "only_kill_step (raw_cgroup_id ?raw) (tr1, a1) (tr2, a2)"
    unfolding only_kill_step_def using h2 k1 by (intro exI [of _ ?up] exI [of _ 6000000000] exI [of _ ?raw] exI [of _ v2]) simp
  then have run: "(only_kill_step (raw_cgroup_id ?raw))\<^sup>*\<^sup>* (tr1, a1) (tr2, a2)" by (rule r_into_rtranclp)
  note last = lost_verdict_remembered [OF h1 [unfolded d1(1)] k0 demo_agent_ok]
  have pod: "fst (is_pod_cgroup (ke_fs ?up) (uint (raw_cgroup_id ?raw)) (sh_resolver (ag_shared a1)))"
    using d1(3) by (simp add: c demo_aenv_def)
  note f = repeated_verdict_frame [OF h2 k1 ok1 last _ pod, simplified]
  have k2: "verdict ?up 6000000000 ?raw a2 = Some KILL"
    by (rule demo_verdict_kill [OF agent_handle_ok [OF ok1 h2]])
      (use f d1(2) in \<open>simp_all add: c demo_aenv_def\<close>)
  obtain v3 tr3 a3 where h3: "agent_handle ?up 6000000000 ?raw tr2 a2 = (v3, tr3, a3)" by (metis prod.exhaust)
  note lost = failed_kill_never_retried [OF demo_agent_ok k0 h1 [unfolded d1(1)] run refl k2 h3]
  show ?thesis
    by (rule exI [of _ tr1], rule exI [of _ a1], rule exI [of _ v2], rule exI [of _ tr2], rule exI [of _ a2],
        rule exI [of _ v3], rule exI [of _ tr3], rule exI [of _ a3])
      (use lost in \<open>simp only: h1 h2 h3 d1(1) simp_thms\<close>)
qed

text \<open>C21. Only the flag arms: in every reachable state of a node started without \<open>--kernel-enforce\<close>
  no container is armed, whatever it did, and in every mode the decision remembered for a container is
  an alert.\<close>
theorem armed_only_with_flag:
  assumes "main_setup cf document node now support env = Inr sys"
    and "node_step\<^sup>*\<^sup>* (node_init sys) n"
  shows "(\<not> cf_kernel_enforce cf \<longrightarrow> ag_armed (nd_agent n) = Map.empty) \<and>
     ag_last_decision (nd_agent n) (uint (c :: u64)) \<noteq> Some ALLOW"
proof -
  have m: "monitored (cf_kernel_enforce cf) (node_init sys)"
    using main_setup_fresh(1,4) [OF assms(1)] by (simp add: monitored_def node_init_def)
  have "level_ok (cf_kernel_enforce cf) (monitor_of c (nd_agent (node_init sys)))" for c
    using main_setup_fresh(2) [OF assms(1), of c] by (simp add: level_ok_def monitor_of_def node_init_def about_def)
  then have "level_ok (cf_kernel_enforce cf) (monitor_of c (nd_agent n))" for c
    by (rule monitors.invariant_transferred [OF levels.step_invariant_axioms assms(2) m])
  then show ?thesis by (auto simp: level_ok_def monitor_of_def fun_eq_iff)
qed

text \<open>Witness of C21: a \<open>setns\<close> on a node in the default mode.\<close>
theorem armed_only_with_flag_witness:
  "\<exists>sys n. main_setup \<lparr>cf_enforce = True, cf_no_k8s = False, cf_kernel_enforce = False,
       cf_no_kernel_filter = False, cf_sync_interval = 5, cf_metrics_port = 9102\<rparr> shipped_config ''worker-1'' 0 True
       (demo_env ''prod'') = Inr sys \<and>
     node_step\<^sup>*\<^sup>* (node_init sys) n \<and> nd_submitted n = 1 \<and> ag_armed (nd_agent n) = Map.empty"
proof -
  let ?cf = "\<lparr>cf_enforce = True, cf_no_k8s = False, cf_kernel_enforce = False,
       cf_no_kernel_filter = False, cf_sync_interval = 5, cf_metrics_port = 9102\<rparr>"
  let ?t = "\<lparr>t_ktime = 5000000000, t_pid_tgid = 0, t_cgroup_id = 108000, t_comm = ''nsenter'', t_ppid = 1\<rparr>"
  obtain sys where sys: "main_setup ?cf shipped_config ''worker-1'' 0 True (demo_env ''prod'') = Inr sys"
    using shipped_setup by blast
  let ?n = "node_probe Setns ?t 0 [] (node_init sys)"
  have run: "node_step\<^sup>*\<^sup>* (node_init sys) ?n"
    by (rule r_into_rtranclp) (rule probe)
  have "sys_classes sys = Map.empty" by (rule demo_classes [OF sys])
  then have "nd_submitted ?n = 1"
    by (simp add: node_probe_def node_init_def node_maps_def run_probe_spec delivered_def should_skip_def
        perf_submit_def Let_def del: run_probe.simps)
  with armed_only_with_flag [OF sys run] sys run show ?thesis by auto
qed

end
