(* ===== verification/NodeFilter.thy ===== *)
theory NodeFilter
  imports Node
begin

text \<open>
  What the filter in the kernel can hide, on a running node: the table of classes is written by the
  prefill at startup and by every scan, the scans use the resolver the callback uses too, and all of
  it interleaves with system calls and deliveries. A history is bound to a set of pods the API server
  may list and a set of states the cgroup file system may be in when it is scanned.
\<close>

section \<open>Histories within bounds\<close>

inductive world_step :: "pod set \<Rightarrow> cgroupfs set \<Rightarrow> node \<Rightarrow> node \<Rightarrow> bool"
  for P :: "pod set" and F :: "cgroupfs set" where
  probe: "world_step P F n (node_probe sc t fam arg n)"
| deliver: "nd_buffer n = before @ raw # after \<Longrightarrow> api_from P (Some (ke_core_v1 env)) \<Longrightarrow>
     agent_handle env now_ns raw (nd_tracer n) (nd_agent n) = (v, tr, a) \<Longrightarrow>
     world_step P F n (n\<lparr>nd_buffer := before @ after, nd_tracer := tr, nd_agent := a\<rparr>)"
| lose: "nd_buffer n = before @ lost @ after \<Longrightarrow>
     agent_lost (int (length lost)) (nd_tracer n) (nd_agent n) = (tr, a) \<Longrightarrow>
     world_step P F n (n\<lparr>nd_buffer := before @ after, nd_tracer := tr, nd_agent := a\<rparr>)"
| scan: "nd_sync n = Some s \<Longrightarrow> api_from P (se_api env) \<Longrightarrow> se_fs env \<in> F \<Longrightarrow>
     scan_once env s (nd_classes n) (Some (sh_resolver (ag_shared (nd_agent n)))) = (v, s', classes, Some r) \<Longrightarrow>
     world_step P F n (n\<lparr>nd_sync := Some s', nd_classes := classes,
       nd_agent := (nd_agent n)\<lparr>ag_shared := (ag_shared (nd_agent n))\<lparr>sh_resolver := r\<rparr>\<rparr>\<rparr>)"
| gauges: "world_step P F n (n\<lparr>nd_agent := update_gauges (nd_sync n) (nd_agent n)\<rparr>)"

lemma world_step_node: "world_step P F n n' \<Longrightarrow> node_step n n'"
  by (induction rule: world_step.induct) (auto intro: node_step.intros)

section \<open>The callback and the scans share a resolver that only holds listed pods\<close>

interpretation listed_only: resolver_invariant "cache_from P" "\<lambda>env c. api_from P (Some (ke_core_v1 env))" for P
proof
  fix env c core and r :: resolver
  assume api: "api_from P (Some (ke_core_v1 env))" and r: "cache_from P r"
  have find: "cache_from P (snd (find_cgroup_path (ke_fs env) c r))"
    using r by (simp add: cache_from_def frame)
  then have look: "cache_from P (snd (lookup_pod core' uid (snd (find_cgroup_path (ke_fs env) c r))))"
    if "api_from P core'" for core' uid
    using cache_from_lookup [OF _ that] by (metis prod.collapse)
  show "cache_from P (snd (find_cgroup_path (ke_fs env) c r))" by (rule find)
  show "cache_from P (snd (owner_of (Some (ke_core_v1 env)) (ke_fs env) c r))"
    using find look [OF api] by (auto simp: owner_of_def split_beta split: option.split sum.split)
  assume "core \<in> {None, Some (ke_core_v1 env)}"
  then have "api_from P core" using api by (auto simp: api_from_def)
  from find look [OF this] show "cache_from P (snd (resolve core (ke_fs env) c r))"
    by (auto simp: resolve_def split_beta split: option.split)
qed

lemma is_pod_cache_from: "cache_from P (snd (is_pod_cgroup fs c r)) = cache_from P r"
  by (simp add: is_pod_cgroup_eq cache_from_def split: option.split)

lemma on_event_cache_from:
  assumes "on_event env e a = (v, a')" "api_from P (Some (ke_core_v1 env))"
    and "cache_from P (sh_resolver (ag_shared a))"
  shows "cache_from P (sh_resolver (ag_shared a'))"
proof (cases "sees_pod env e a")
  case False
  with assms show ?thesis by (auto simp: on_event_host is_pod_cache_from)
next
  case True
  have s: "cache_from P (sh_resolver (ag_shared (scored_agent env e a)))"
    using assms(3) by (simp add: is_pod_cache_from)
  show ?thesis
  proof (cases "evaluate (ag_policy a) (event_story env e a)")
    case (Inl err)
    with assms(1) s True show ?thesis by (auto simp: on_event_pod)
  next
    case (Inr d)
    with assms(1) True have "on_verdict env (event_story env e a) d (scored_agent env e a) = (v, a')"
      by (simp add: on_event_pod)
    from listed_only.on_verdict_keeps [OF this _ s] assms(2) show ?thesis by (simp add: kenv.defs)
  qed
qed

lemma agent_handle_cache_from:
  assumes "agent_handle env now_ns raw tr a = (v, tr', a')" "api_from P (Some (ke_core_v1 env))"
    and "cache_from P (sh_resolver (ag_shared a))"
  shows "cache_from P (sh_resolver (ag_shared a'))"
  using assms(1)
proof (cases rule: agent_handle_cases)
  case (event mx)
  from on_event_cache_from [OF event(2) assms(2)] assms(3) show ?thesis by simp
qed (use assms(3) in simp)

section \<open>Every class that hides has its reason\<close>

text \<open>
  The inode \<open>c\<close> was, in one of the file system's states, that of a directory under a host's top-level
  name, or of a directory of a pod in one of the namespaces \<open>X\<close>.
\<close>

definition hidden_for :: "pod set \<Rightarrow> cgroupfs set \<Rightarrow> string list \<Rightarrow> u64 \<Rightarrow> bool" where
  "hidden_for P F X c =
     (\<exists>fs \<in> F. \<exists>path i. fs_ino fs path = Some i \<and> c_uint64 i = c \<and>
        (path \<in> set (host_paths fs) \<or>
         path \<in> set (pod_paths fs) \<and>
           (\<exists>p \<in> P. extract_pod_uid path = Some (pod_uid p) \<and> pod_namespace p \<in> set X)))"

definition hides_for :: "pod set \<Rightarrow> cgroupfs set \<Rightarrow> string list \<Rightarrow> u64 \<Rightarrow> u8 \<Rightarrow> bool" where
  "hides_for P F X c cls = (cls \<in> {CLASS_HOST, CLASS_EXCLUDED} \<longrightarrow> hidden_for P F X c)"

definition filter_ok :: "pod set \<Rightarrow> cgroupfs set \<Rightarrow> string list \<Rightarrow> node \<Rightarrow> bool" where
  "filter_ok P F X n =
     (cache_from P (sh_resolver (ag_shared (nd_agent n))) \<and> entries (hides_for P F X) (nd_classes n) \<and>
      (\<forall>s. nd_sync n = Some s \<longrightarrow> sy_exclude s = X))"

lemma explains_hides:
  assumes "fs \<in> F"
  shows "\<forall>c cls. explains P s fs c cls \<longrightarrow> hides_for P F (sy_exclude s) c cls"
proof (intro allI impI)
  fix c cls
  assume "explains P s fs c cls"
  then show "hides_for P F (sy_exclude s) c cls"
    using assms
    by (fastforce simp: explains_def hides_for_def hidden_for_def namespace_class_def classes split: if_splits)
qed

lemma explains_hosts:
  assumes "fs \<in> F" "explains {} s fs c cls"
  shows "hides_for P F X c cls"
proof -
  obtain path i where "fs_ino fs path = Some i" "c_uint64 i = c"
    "path \<in> set (host_paths fs) \<or> cls = CLASS_POD"
    using assms(2) by (auto simp: explains_def)
  then show ?thesis using assms(1) by (auto simp: hides_for_def hidden_for_def classes)
qed

lemma filter_ok_step: "filter_ok P F X n \<Longrightarrow> world_step P F n n' \<Longrightarrow> filter_ok P F X n'"
proof (rotate_tac, induction rule: world_step.induct)
  case (probe n sc t fam arg)
  then show ?case by (simp add: filter_ok_def node_probe_def Let_def)
next
  case (deliver n before raw after env now_ns v tr a)
  then show ?case using agent_handle_cache_from [OF deliver(3,2)] by (simp add: filter_ok_def)
next
  case (lose n before lost after tr a)
  then obtain mx where "a = (nd_agent n)\<lparr>ag_shared := (ag_shared (nd_agent n))\<lparr>sh_metrics := mx\<rparr>\<rparr>"
    using agent_lost_frame(1) by blast
  with lose show ?case by (simp add: filter_ok_def)
next
  case (scan n s env v s' classes r)
  then have X: "sy_exclude s = X" and r: "res_from P (Some (sh_resolver (ag_shared (nd_agent n))))"
    and m: "entries (hides_for P F X) (nd_classes n)"
    by (simp_all add: filter_ok_def res_from_def)
  from scan_once_sound [OF scan(4) r scan(2) m explains_hides [OF scan(3), of P s, unfolded X]]
  show ?case using scan_once_config [OF scan(4)] X by (simp add: filter_ok_def res_from_def)
qed (simp_all add: filter_ok_def)

interpretation filters: step_invariant "world_step P F" "filter_ok P F X" for P F X
  by unfold_locales (rule filter_ok_step)

section \<open>The prefill is the first scan of the hosts\<close>

text \<open>The prefill and the scan's host pass are the same loop, written twice.\<close>

lemma prefill_dirs_scan_host:
  "prefill_dirs accepts fs dirs (n, errors, m) = (n', errors', m') \<Longrightarrow>
     snd (scan_host accepts fs dirs counts m) = m' \<and>
     dict_get (fst (scan_host accepts fs dirs counts m)) CLASS_HOST 0
       = dict_get counts CLASS_HOST 0 + (int n' - int n)"
proof (induction dirs arbitrary: n errors m counts)
  case (Cons d dirs)
  show ?case
  proof (cases "fs_ino fs d")
    case None
    with Cons show ?thesis by (simp add: classify_def)
  next
    case (Some i)
    show ?thesis
    proof (cases "table_put accepts m (c_uint64 i) CLASS_HOST")
      case None
      with Some Cons show ?thesis by (simp add: classify_def)
    next
      case put: (Some m1)
      with Some Cons.prems have "prefill_dirs accepts fs dirs (n + 1, errors, m1) = (n', errors', m')" by simp
      from Cons.IH [OF this, of "bump counts CLASS_HOST"] Some put show ?thesis
        by (simp add: classify_def bump_def)
    qed
  qed
qed simp

text \<open>Hence they agree whatever writes the table refuses: on the same tree they leave the same table,
  and the number the prefill reports is what the pass adds to its host counter.\<close>

lemma prefill_equals_host_pass:
  "snd (scan_host accepts fs (host_paths fs) counts m) = snd (snd (snd (prefill_host_classes accepts fs m))) \<and>
   dict_get (fst (scan_host accepts fs (host_paths fs) counts m)) CLASS_HOST 0
     = dict_get counts CLASS_HOST 0 + int (fst (snd (prefill_host_classes accepts fs m)))"
proof -
  obtain missing n errors m' where p: "prefill_host_classes accepts fs m = (missing, n, errors, m')"
    by (metis prod.exhaust)
  then have "prefill_dirs accepts fs (host_paths fs) (0, [], m) = (n, errors, m')"
    using prefill_tops_dirs [of accepts fs host_top_level "[]" "(0, [], m)"]
    by (simp add: prefill_host_classes_def host_paths_def)
  from prefill_dirs_scan_host [OF this] p show ?thesis by simp
qed

text \<open>The namespaces the classifier of a system excludes.\<close>

definition excluded_by :: "system \<Rightarrow> string list" where
  "excluded_by sys = (case sys_sync sys of None \<Rightarrow> [] | Some s \<Rightarrow> sy_exclude s)"

lemma excluded_by_policy:
  assumes "main_setup cf document node now support env = Inr sys" "ns \<in> set (excluded_by sys)"
  shows "\<exists>ex. namespace_set (exclude_namespaces (ag_policy (sys_agent sys))) = Inr ex \<and> ns \<in> set ex"
  using assms
  by (auto simp: main_setup_def launch_def start_cgroup_sync_def sync_start_def new_sync_def excluded_by_def
      tracer_init_def Let_def split_beta and_then_Inr_iff split: if_splits)

lemma filter_ok_init:
  assumes "main_setup cf document node now support env = Inr sys" "se_fs env \<in> F"
  shows "filter_ok P F (excluded_by sys) (node_init sys)"
proof -
  have r: "sh_resolver (ag_shared (sys_agent sys)) = new_resolver"
    by (rule main_setup_agent [OF assms(1)]) simp
  have "sys_classes sys = snd (snd (snd (prefill_host_classes (se_accepts env) (se_fs env) Map.empty)))"
    by (rule main_setup_agent [OF assms(1)])
  then have "scan_host (se_accepts env) (se_fs env) (host_paths (se_fs env)) counts Map.empty =
      (fst (scan_host (se_accepts env) (se_fs env) (host_paths (se_fs env)) counts Map.empty), sys_classes sys)" for counts
    using prefill_equals_host_pass by (simp add: prod_eq_iff)
  moreover have "entries (hides_for P F (excluded_by sys)) Map.empty" by (simp add: entries_def)
  moreover have "\<forall>c cls. explains {} undefined (se_fs env) c cls \<longrightarrow> hides_for P F (excluded_by sys) c cls"
    using explains_hosts [OF assms(2)] by blast
  ultimately have "entries (hides_for P F (excluded_by sys)) (sys_classes sys)"
    using scan_host_sound by blast
  then show ?thesis
    by (simp add: filter_ok_def node_init_def r cache_from_new excluded_by_def split: option.split)
qed

section \<open>Properties\<close>

text \<open>C11. On a running node the filter blinds the agent to nothing but host processes and excluded
  namespaces: however system calls, deliveries, losses, scans (failed ones and refused writes
  included) and gauge refreshes interleave after the startup, a cgroup whose events the kernel drops
  had, when the prefill or a scan looked, the inode of a directory under a host's top-level name or
  of a directory of a listed pod in a namespace the policy excludes.\<close>
theorem filter_hides_only_hosts_and_excluded:
  assumes "main_setup cf document node now support env = Inr sys" and "se_fs env \<in> F"
    and "(world_step P F)\<^sup>*\<^sup>* (node_init sys) n"
    and "should_skip (node_maps n) c"
  shows "\<exists>fs \<in> F. \<exists>path i. fs_ino fs path = Some i \<and> c_uint64 i = c \<and>
     (path \<in> set (host_paths fs) \<or>
      path \<in> set (pod_paths fs) \<and>
        (\<exists>p \<in> P. extract_pod_uid path = Some (pod_uid p) \<and>
           (\<exists>ex. namespace_set (exclude_namespaces (ag_policy (sys_agent sys))) = Inr ex \<and>
              pod_namespace p \<in> set ex)))"
proof -
  have "filter_ok P F (excluded_by sys) n"
    by (rule filters.reachable [OF assms(3) filter_ok_init [OF assms(1,2)]])
  moreover obtain cls where "nd_classes n c = Some cls" "cls \<in> {CLASS_HOST, CLASS_EXCLUDED}"
    using assms(4) by (auto simp: should_skip_def node_maps_def split: option.splits)
  ultimately have "hidden_for P F (excluded_by sys) c"
    by (auto simp: filter_ok_def entries_def hides_for_def)
  then show ?thesis
    unfolding hidden_for_def using excluded_by_policy [OF assms(1)] by blast
qed

definition host_fs :: cgroupfs where
  "host_fs = \<lparr>fs_top = [Dir ''system.slice'' []], fs_ino = (\<lambda>p. Some 12), fs_kill = (\<lambda>p. KillMissing)\<rparr>"

text \<open>Witness of C11: the shipped policy on a node with a host service, one of whose calls is made and
  not recorded.\<close>
theorem filter_hides_only_hosts_and_excluded_witness:
  "\<exists>sys n. main_setup \<lparr>cf_enforce = True, cf_no_k8s = False, cf_kernel_enforce = True,
       cf_no_kernel_filter = False, cf_sync_interval = 5, cf_metrics_port = 9102\<rparr> shipped_config ''worker-1'' 0 True
       ((demo_env ''prod'')\<lparr>se_accepts := always_accepts, se_fs := host_fs\<rparr>) = Inr sys \<and>
     (world_step {} {host_fs})\<^sup>*\<^sup>* (node_init sys) n \<and> should_skip (node_maps n) 12 \<and> nd_buffer n = [] \<and>
     (\<exists>path i. fs_ino host_fs path = Some i \<and> c_uint64 i = 12 \<and> path \<in> set (host_paths host_fs))"
proof -
  let ?cf = "\<lparr>cf_enforce = True, cf_no_k8s = False, cf_kernel_enforce = True,
       cf_no_kernel_filter = False, cf_sync_interval = 5, cf_metrics_port = 9102\<rparr>"
  let ?env = "(demo_env ''prod'')\<lparr>se_accepts := always_accepts, se_fs := host_fs\<rparr>"
  let ?t = "\<lparr>t_ktime = 5000000000, t_pid_tgid = 0, t_cgroup_id = 12, t_comm = ''snapd'', t_ppid = 1\<rparr>"
  obtain sys where sys: "main_setup ?cf shipped_config ''worker-1'' 0 True ?env = Inr sys"
    using shipped_setup by blast
  have "sys_classes sys = snd (snd (snd (prefill_host_classes (se_accepts ?env) (se_fs ?env) Map.empty)))"
    by (rule main_setup_agent [OF sys])
  then have "\<exists>n errors. prefill_dirs always_accepts host_fs (host_paths host_fs) (0, [], Map.empty) = (n, errors, sys_classes sys)"
    using prefill_tops_dirs [of always_accepts host_fs host_top_level "[]" "(0, [], Map.empty)"]
    by (simp add: prefill_host_classes_def host_paths_def prod_eq_iff)
  then have marks: "marks_host host_fs (host_paths host_fs) Map.empty (sys_classes sys)"
    using prefill_dirs_marks by (fastforce simp: accepts_all_def always_accepts_def)
  have "host_paths host_fs \<noteq> []"
    by (simp add: host_fs_def host_paths_def host_top_level_def walk_base_def top_dir_def)
  then obtain path where "path \<in> set (host_paths host_fs)" by (cases "host_paths host_fs") auto
  then have classes12: "sys_classes sys 12 = Some CLASS_HOST"
    using marks by (auto simp: marks_host_def host_fs_def c_uint64_def)
  let ?n = "node_probe Mount ?t 0 [] (node_init sys)"
  have run: "(world_step {} {host_fs})\<^sup>*\<^sup>* (node_init sys) ?n"
    by (rule r_into_rtranclp) (rule probe)
  have n: "should_skip (node_maps ?n) 12" "nd_buffer ?n = []"
    using classes12
    by (simp_all add: node_probe_def node_init_def node_maps_def should_skip_def run_probe_spec delivered_def
        dropped_def Let_def del: run_probe.simps)
  have "\<exists>path i. fs_ino host_fs path = Some i \<and> c_uint64 i = 12 \<and> path \<in> set (host_paths host_fs)"
    using filter_hides_only_hosts_and_excluded [OF sys _ run n(1)] by auto
  with sys run n show ?thesis by blast
qed

end
