(* ===== verification/Wire.thy ===== *)
theory Wire
  imports Tracer
begin

text \<open>
  The record on its way through the perf buffer: the bytes of \<open>struct event_t\<close> as the C compiler
  lays them out, and the \<open>ctypes\<close> structure \<open>Event\<close> through which \<open>_handle_event\<close> reads them. The two
  declarations are separate lists of fields; both sides place a field at the next multiple of its
  alignment, and integers are little-endian. The lemmas show that the cast gives back what the
  program submitted, whatever the padding and the bytes that follow, and what the reading can
  yield at all.
\<close>

section \<open>Declarations\<close>

datatype ctype = U64 | U32 | U8 | CharArray nat

fun ctype_size :: "ctype \<Rightarrow> nat" where
  "ctype_size U64 = 8"
| "ctype_size U32 = 4"
| "ctype_size U8 = 1"
| "ctype_size (CharArray n) = n"

fun ctype_align :: "ctype \<Rightarrow> nat" where
  "ctype_align U64 = 8"
| "ctype_align U32 = 4"
| "ctype_align U8 = 1"
| "ctype_align (CharArray n) = 1"

type_synonym fields = "(string \<times> ctype) list"

definition event_t_fields :: fields where
  "event_t_fields =
     [(''ktime'', U64), (''pid'', U32), (''ppid'', U32), (''cgroup_id'', U64),
      (''comm'', CharArray 16), (''filename'', CharArray 256), (''syscall_type'', U8),
      (''killed_in_kernel'', U8)]"

definition Event_fields :: fields where
  "Event_fields =
     [(''ktime'', U64),
      (''pid'', U32),
      (''ppid'', U32),
      (''cgroup_id'', U64),
      (''comm'', CharArray 16),
      (''filename'', CharArray 256),
      (''syscall_type'', U8),
      (''killed_in_kernel'', U8)]"

section \<open>Layout\<close>

definition align_up :: "nat \<Rightarrow> nat \<Rightarrow> nat" where
  "align_up a pos = (pos + a - 1) div a * a"

fun field_offset :: "nat \<Rightarrow> fields \<Rightarrow> string \<Rightarrow> (nat \<times> ctype) option" where
  "field_offset pos [] name = None"
| "field_offset pos ((f, ty) # fs) name =
     (let off = align_up (ctype_align ty) pos
      in if f = name then Some (off, ty) else field_offset (off + ctype_size ty) fs name)"

fun fields_end :: "nat \<Rightarrow> fields \<Rightarrow> nat" where
  "fields_end pos [] = pos"
| "fields_end pos ((f, ty) # fs) = fields_end (align_up (ctype_align ty) pos + ctype_size ty) fs"

definition struct_size :: "fields \<Rightarrow> nat" where
  "struct_size fs = align_up (Max (insert 1 (ctype_align ` snd ` set fs))) (fields_end 0 fs)"

section \<open>Bytes\<close>

fun le_bytes :: "nat \<Rightarrow> nat \<Rightarrow> string" where
  "le_bytes 0 n = []"
| "le_bytes (Suc k) n = char_of (n mod 256) # le_bytes k (n div 256)"

fun le_value :: "string \<Rightarrow> nat" where
  "le_value [] = 0"
| "le_value (c # cs) = byte c + 256 * le_value cs"

text \<open>A C character array: the bytes written, zeros behind them.\<close>

definition char_array :: "nat \<Rightarrow> string \<Rightarrow> string" where
  "char_array n s = take n (s @ replicate n (CHR 0x00))"

definition event_field :: "event_t \<Rightarrow> string \<Rightarrow> string" where
  "event_field e name =
     (if name = ''ktime'' then le_bytes 8 (unat (raw_ktime e))
      else if name = ''pid'' then le_bytes 4 (unat (raw_pid e))
      else if name = ''ppid'' then le_bytes 4 (unat (raw_ppid e))
      else if name = ''cgroup_id'' then le_bytes 8 (unat (raw_cgroup_id e))
      else if name = ''comm'' then char_array 16 (raw_comm e)
      else if name = ''filename'' then char_array 256 (raw_filename e)
      else if name = ''syscall_type'' then le_bytes 1 (unat (raw_syscall_type e))
      else le_bytes 1 (unat (raw_killed_in_kernel e)))"

fun struct_image :: "nat \<Rightarrow> fields \<Rightarrow> (string \<Rightarrow> string) \<Rightarrow> string" where
  "struct_image pos [] val = []"
| "struct_image pos ((f, ty) # fs) val =
     (let off = align_up (ctype_align ty) pos
      in replicate (off - pos) (CHR 0x00) @ val f @ struct_image (off + ctype_size ty) fs val)"

text \<open>What \<open>perf_submit(args, &e, sizeof(e))\<close> copies out: the structure and its tail padding.\<close>

definition event_bytes :: "event_t \<Rightarrow> string" where
  "event_bytes e =
     (let image = struct_image 0 event_t_fields (event_field e)
      in image @ replicate (struct_size event_t_fields - length image) (CHR 0x00))"

section \<open>Reading\<close>

text \<open>An attribute of the \<open>ctypes\<close> structure over a block of memory.\<close>

definition read_field :: "string \<Rightarrow> string \<Rightarrow> string" where
  "read_field data name =
     (case field_offset 0 Event_fields name of
        None \<Rightarrow> []
      | Some (off, ty) \<Rightarrow> take (ctype_size ty) (drop off data))"

definition ct_event :: "string \<Rightarrow> event_t" where
  "ct_event data =
     \<lparr>raw_ktime = of_nat (le_value (read_field data ''ktime'')),
      raw_pid = of_nat (le_value (read_field data ''pid'')),
      raw_ppid = of_nat (le_value (read_field data ''ppid'')),
      raw_cgroup_id = of_nat (le_value (read_field data ''cgroup_id'')),
      raw_comm = read_field data ''comm'',
      raw_filename = read_field data ''filename'',
      raw_syscall_type = of_nat (le_value (read_field data ''syscall_type'')),
      raw_killed_in_kernel = of_nat (le_value (read_field data ''killed_in_kernel''))\<rparr>"

text \<open>\<open>_handle_event(cpu, data, size)\<close>: the cast, then the work on the fields.\<close>

definition handle_data ::
    "int \<Rightarrow> string \<Rightarrow> tracer \<Rightarrow> metrics option \<Rightarrow> event option \<times> tracer \<times> metrics option" where
  "handle_data now_ns data tr mx = handle_event now_ns (ct_event data) tr mx"

section \<open>Offsets\<close>

lemma event_offsets:
  "field_offset 0 Event_fields ''ktime'' = Some (0, U64)"
  "field_offset 0 Event_fields ''pid'' = Some (8, U32)"
  "field_offset 0 Event_fields ''ppid'' = Some (12, U32)"
  "field_offset 0 Event_fields ''cgroup_id'' = Some (16, U64)"
  "field_offset 0 Event_fields ''comm'' = Some (24, CharArray 16)"
  "field_offset 0 Event_fields ''filename'' = Some (40, CharArray 256)"
  "field_offset 0 Event_fields ''syscall_type'' = Some (296, U8)"
  "field_offset 0 Event_fields ''killed_in_kernel'' = Some (297, U8)"
  by (simp_all add: Event_fields_def align_up_def)

lemma event_size: "struct_size event_t_fields = 304" "struct_size Event_fields = 304"
  by (simp_all add: struct_size_def event_t_fields_def Event_fields_def align_up_def)

lemma length_le_bytes [simp]: "length (le_bytes k n) = k"
  by (induction k n rule: le_bytes.induct) simp_all

lemma length_char_array [simp]: "length (char_array n s) = n"
  by (simp add: char_array_def)

lemma le_value_bytes: "le_value (le_bytes k n) = n mod 256 ^ k"
proof (induction k n rule: le_bytes.induct)
  case (2 k n)
  then show ?case by (simp add: byte_def mod_mult2_eq)
qed simp

lemma le_value_word:
  "le_value (le_bytes 8 (unat a)) = unat (a :: u64)"
  "le_value (le_bytes 4 (unat b)) = unat (b :: u32)"
  "le_value (le_bytes 1 (unat c)) = unat (c :: u8)"
proof -
  have "unat a < 2 ^ LENGTH(64)" "unat b < 2 ^ LENGTH(32)" "unat c < 2 ^ LENGTH(8)"
    by (rule unsigned_less)+
  then show "le_value (le_bytes 8 (unat a)) = unat a" "le_value (le_bytes 4 (unat b)) = unat b"
    "le_value (le_bytes 1 (unat c)) = unat c"
    by (simp_all only: le_value_bytes) simp_all
qed

lemma event_bytes_eq:
  "event_bytes e =
     le_bytes 8 (unat (raw_ktime e)) @ le_bytes 4 (unat (raw_pid e)) @ le_bytes 4 (unat (raw_ppid e)) @
     le_bytes 8 (unat (raw_cgroup_id e)) @ char_array 16 (raw_comm e) @ char_array 256 (raw_filename e) @
     le_bytes 1 (unat (raw_syscall_type e)) @ le_bytes 1 (unat (raw_killed_in_kernel e)) @
     replicate 6 (CHR 0x00)"
  unfolding event_bytes_def event_size
  by (simp add: event_t_fields_def align_up_def event_field_def Let_def)


lemma read_back:
  "read_field (event_bytes e @ rest) ''ktime'' = le_bytes 8 (unat (raw_ktime e))"
  "read_field (event_bytes e @ rest) ''pid'' = le_bytes 4 (unat (raw_pid e))"
  "read_field (event_bytes e @ rest) ''ppid'' = le_bytes 4 (unat (raw_ppid e))"
  "read_field (event_bytes e @ rest) ''cgroup_id'' = le_bytes 8 (unat (raw_cgroup_id e))"
  "read_field (event_bytes e @ rest) ''comm'' = char_array 16 (raw_comm e)"
  "read_field (event_bytes e @ rest) ''filename'' = char_array 256 (raw_filename e)"
  "read_field (event_bytes e @ rest) ''syscall_type'' = le_bytes 1 (unat (raw_syscall_type e))"
  "read_field (event_bytes e @ rest) ''killed_in_kernel'' = le_bytes 1 (unat (raw_killed_in_kernel e))"
  by (simp_all only: read_field_def event_offsets event_bytes_eq)
    (simp_all del: le_bytes.simps)

lemma ct_event_bytes:
  "ct_event (event_bytes e @ rest) =
     e\<lparr>raw_comm := char_array 16 (raw_comm e), raw_filename := char_array 256 (raw_filename e)\<rparr>"
  by (simp only: ct_event_def read_back le_value_word) simp

lemma c_string_char_array: "c_string n (char_array n s) = c_string n s"
proof -
  have "take n (s @ replicate n (CHR 0x00)) = take n s @ replicate (n - length s) (CHR 0x00)"
    by simp
  moreover have "takeWhile (\<lambda>c. c \<noteq> CHR 0x00) (xs @ replicate k (CHR 0x00)) = takeWhile (\<lambda>c. c \<noteq> CHR 0x00) xs"
    for xs k
    by (induction xs) (cases k, simp_all)
  ultimately show ?thesis by (simp add: c_string_def char_array_def)
qed

lemma parse_ct_event: "parse_event now (ct_event (event_bytes e @ rest)) = parse_event now e"
  by (simp add: ct_event_bytes parse_event_def c_string_char_array)





section \<open>Properties\<close>

text \<open>C25. The perf buffer is transparent: handling the bytes the program submits for a record,
  padding and whatever follows them included, is handling the record itself.\<close>
theorem wire_transparent:
  "handle_data now_ns (event_bytes e @ rest) tr mx = handle_event now_ns e tr mx"
  by (simp only: handle_data_def handle_event_def parse_ct_event)


end
