(* ===== verification/ResolverThreads.thy ===== *)
theory ResolverThreads
  imports ApiWorkers CgroupSync
begin

text \<open>
  The pod resolver under its two users: the thread that reads the perf buffer and the classifier's
  background thread share one resolver without a lock. Elsewhere in this library \<open>lookup_pod\<close> is
  one atomic operation; here it is taken apart into the statements between which the interpreter
  may switch threads: the test of the cache, the reply of the API server, and for each pod of the
  reply one assignment to each of the two caches. Any number of threads interleave.
\<close>

section \<open>Threads inside \<open>lookup_pod\<close>\<close>

text \<open>
  Outside the method; waiting for the reply about a UID; with the pods still to enter and the
  result so far, before the next pod; and between the two assignments for a pod.
\<close>

datatype lookup_pc =
    LIdle
  | LCall string
  | LFill string "pod list" "(string \<times> string) option"
  | LHalf string pod "pod list" "(string \<times> string) option"

record lookups =
  lk_res :: resolver
  lk_pcs :: "nat \<Rightarrow> lookup_pc"

definition goto :: "nat \<Rightarrow> lookup_pc \<Rightarrow> lookups \<Rightarrow> lookups" where
  "goto i pc s = s\<lparr>lk_pcs := (lk_pcs s)(i := pc)\<rparr>"

definition put_pod :: "pod \<Rightarrow> resolver \<Rightarrow> resolver" where
  "put_pod p r = r\<lparr>pod_cache := dict_set (pod_cache r) (pod_uid p) (pod_namespace p, pod_name p)\<rparr>"

definition put_owner :: "pod \<Rightarrow> resolver \<Rightarrow> resolver" where
  "put_owner p r = r\<lparr>owner_cache := dict_set (owner_cache r) (pod_uid p) (extract_owner p)\<rparr>"

definition found_pod :: "string \<Rightarrow> pod \<Rightarrow> (string \<times> string) option \<Rightarrow> (string \<times> string) option" where
  "found_pod uid p result = (if pod_uid p = uid then Some (pod_namespace p, pod_name p) else result)"

text \<open>
  \<open>P\<close> is the set of pods the API server may list. The two caches \<open>lookup_pod\<close> does not touch may
  change at any time.
\<close>

inductive lookup_step :: "pod set \<Rightarrow> lookups \<Rightarrow> lookups \<Rightarrow> bool" for P :: "pod set" where
  miss: "lk_pcs s i = LIdle \<Longrightarrow> map_of (pod_cache (lk_res s)) uid = None \<Longrightarrow>
     lookup_step P s (goto i (LCall uid) s)"
| reply: "lk_pcs s i = LCall uid \<Longrightarrow> set pods \<subseteq> P \<Longrightarrow>
     lookup_step P s (goto i (LFill uid pods None) (s\<lparr>lk_res := (lk_res s)\<lparr>api_calls := Suc (api_calls (lk_res s))\<rparr>\<rparr>))"
| raise: "lk_pcs s i = LCall uid \<Longrightarrow>
     lookup_step P s (goto i LIdle (s\<lparr>lk_res := (lk_res s)\<lparr>api_calls := Suc (api_calls (lk_res s))\<rparr>\<rparr>))"
| pod: "lk_pcs s i = LFill uid (p # ps) result \<Longrightarrow>
     lookup_step P s (goto i (LHalf uid p ps result) (s\<lparr>lk_res := put_pod p (lk_res s)\<rparr>))"
| owner: "lk_pcs s i = LHalf uid p ps result \<Longrightarrow>
     lookup_step P s (goto i (LFill uid ps (found_pod uid p result)) (s\<lparr>lk_res := put_owner p (lk_res s)\<rparr>))"
| leave: "lk_pcs s i = LFill uid [] result \<Longrightarrow> lookup_step P s (goto i LIdle s)"
| other: "lookup_step P s (s\<lparr>lk_res := (lk_res s)\<lparr>path_cache := paths, not_in_kubepods := hosts\<rparr>\<rparr>)"

definition lookups_init :: lookups where
  "lookups_init = \<lparr>lk_res = new_resolver, lk_pcs = (\<lambda>i. LIdle)\<rparr>"

section \<open>The atomic operation is an execution\<close>

lemma goto_simps [simp]:
  "lk_res (goto i pc s) = lk_res s" "lk_pcs (goto i pc s) = (lk_pcs s)(i := pc)"
  "goto i pc (goto i pc' s) = goto i pc s"
  by (simp_all add: goto_def)

lemma fill_run:
  "(lookup_step P)\<^sup>*\<^sup>* (goto i (LFill uid ps result) s)
     (goto i (LFill uid [] (fst (fill_caches ps uid result (lk_res s))))
        (s\<lparr>lk_res := snd (fill_caches ps uid result (lk_res s))\<rparr>))"
proof (induction ps arbitrary: result s)
  case (Cons p ps)
  let ?s1 = "goto i (LHalf uid p ps result) (s\<lparr>lk_res := put_pod p (lk_res s)\<rparr>)"
  let ?s2 = "goto i (LFill uid ps (found_pod uid p result)) (s\<lparr>lk_res := put_owner p (put_pod p (lk_res s))\<rparr>)"
  have "lookup_step P (goto i (LFill uid (p # ps) result) s) ?s1"
    using pod [of "goto i (LFill uid (p # ps) result) s" i uid p ps result P] by (simp add: goto_def)
  moreover have "lookup_step P ?s1 ?s2"
    using owner [of ?s1 i uid p ps result P] by (simp add: goto_def)
  moreover note Cons.IH [of "found_pod uid p result" "s\<lparr>lk_res := put_owner p (put_pod p (lk_res s))\<rparr>"]
  ultimately show ?case
    by (simp add: put_pod_def put_owner_def found_pod_def cong: if_cong)
qed simp

lemma goto_back: "lk_pcs s i = pc \<Longrightarrow> goto i pc s = s"
  by (cases s) (simp add: goto_def fun_upd_idem)

text \<open>A thread that looks up an uncached UID and gets a reply has, before it leaves, the result of the
  operation in hand and the operation's caches in place.\<close>

lemma lookup_pod_reply:
  assumes "lookup_pod (Some api) uid (lk_res s) = (Inr w, r')" and "api_from P (Some api)"
    and "lk_pcs s i = LIdle" and "map_of (pod_cache (lk_res s)) uid = None"
  shows "(lookup_step P)\<^sup>*\<^sup>* s (goto i (LFill uid [] w) (s\<lparr>lk_res := r'\<rparr>))"
proof -
  let ?r1 = "(lk_res s)\<lparr>api_calls := Suc (api_calls (lk_res s))\<rparr>"
  let ?s1 = "goto i (LCall uid) s"
  obtain pods where pods: "api (api_calls (lk_res s)) = Inr pods" and
    fill: "w = fst (fill_caches pods uid None ?r1)" "r' = snd (fill_caches pods uid None ?r1)"
    using assms(1,4) by (auto simp: lookup_pod_def Let_def split: sum.splits prod.splits)
  have "lookup_step P s ?s1" by (rule miss [OF assms(3,4)])
  moreover have "lookup_step P ?s1 (goto i (LFill uid pods None) (s\<lparr>lk_res := ?r1\<rparr>))"
  proof -
    have "set pods \<subseteq> P" using assms(2) pods by (auto simp: api_from_def)
    then have "lookup_step P ?s1 (goto i (LFill uid pods None) (?s1\<lparr>lk_res := ?r1\<rparr>))"
      using reply [of ?s1 i uid pods P] by simp
    then show ?thesis by (simp add: goto_def)
  qed
  moreover have "(lookup_step P)\<^sup>*\<^sup>* (goto i (LFill uid pods None) (s\<lparr>lk_res := ?r1\<rparr>))
      (goto i (LFill uid [] w) (s\<lparr>lk_res := r'\<rparr>))"
    using fill_run [of P i uid pods None "s\<lparr>lk_res := ?r1\<rparr>"] fill by simp
  ultimately show ?thesis by (meson converse_rtranclp_into_rtranclp)
qed

lemma lookup_pod_run:
  assumes "lookup_pod (Some api) uid (lk_res s) = (v, r')" and "api_from P (Some api)"
    and "lk_pcs s i = LIdle"
  shows "(lookup_step P)\<^sup>*\<^sup>* s (s\<lparr>lk_res := r'\<rparr>)"
proof (cases "map_of (pod_cache (lk_res s)) uid")
  case (Some entry)
  with assms(1) show ?thesis by (auto simp: lookup_pod_def)
next
  case None
  let ?r1 = "(lk_res s)\<lparr>api_calls := Suc (api_calls (lk_res s))\<rparr>"
  have idle: "goto i LIdle (s\<lparr>lk_res := r'\<rparr>) = s\<lparr>lk_res := r'\<rparr>"
    using assms(3) by (intro goto_back) simp
  show ?thesis
  proof (cases v)
    case (Inl e)
    let ?s1 = "goto i (LCall uid) s"
    have r': "r' = ?r1" using assms(1) None Inl
      by (auto simp: lookup_pod_def Let_def split: sum.splits prod.splits)
    have "lookup_step P s ?s1" by (rule miss [OF assms(3) None])
    moreover have "lookup_step P ?s1 (goto i LIdle (?s1\<lparr>lk_res := ?r1\<rparr>))"
      using raise [of ?s1 i uid P] by simp
    moreover have "goto i LIdle (?s1\<lparr>lk_res := ?r1\<rparr>) = s\<lparr>lk_res := r'\<rparr>"
      using idle r' by (simp add: goto_def)
    ultimately show ?thesis by (metis converse_rtranclp_into_rtranclp r_into_rtranclp)
  next
    case (Inr w)
    let ?s2 = "goto i (LFill uid [] w) (s\<lparr>lk_res := r'\<rparr>)"
    have "(lookup_step P)\<^sup>*\<^sup>* s ?s2"
      using lookup_pod_reply [OF _ assms(2,3) None] assms(1) Inr by simp
    moreover have "lookup_step P ?s2 (s\<lparr>lk_res := r'\<rparr>)"
      using leave [of ?s2 i uid w P] idle by simp
    ultimately show ?thesis by (rule rtranclp.rtrancl_into_rtrancl)
  qed
qed

section \<open>What holds in every interleaving\<close>

fun pending :: "lookup_pc \<Rightarrow> pod set" where
  "pending LIdle = {}"
| "pending (LCall uid) = {}"
| "pending (LFill uid ps result) = set ps"
| "pending (LHalf uid p ps result) = insert p (set ps)"

fun half_entered :: "lookup_pc \<Rightarrow> string option" where
  "half_entered (LHalf uid p ps result) = Some (pod_uid p)"
| "half_entered _ = None"

definition owners_from :: "pod set \<Rightarrow> resolver \<Rightarrow> bool" where
  "owners_from P r = (\<forall>(uid, ow) \<in> set (owner_cache r). \<exists>p \<in> P. pod_uid p = uid \<and> extract_owner p = ow)"

definition halves :: "lookups \<Rightarrow> string set" where
  "halves s = {uid. \<exists>i. half_entered (lk_pcs s i) = Some uid}"

definition named :: "resolver \<Rightarrow> string set" where
  "named r = dom (map_of (pod_cache r))"

definition owned :: "resolver \<Rightarrow> string set" where
  "owned r = dom (map_of (owner_cache r))"

text \<open>A UID in the pod cache has its owner too, unless a thread is between the two assignments.\<close>

definition lookups_ok :: "pod set \<Rightarrow> lookups \<Rightarrow> bool" where
  "lookups_ok P s =
     (cache_from P (lk_res s) \<and> owners_from P (lk_res s) \<and> (\<forall>i. pending (lk_pcs s i) \<subseteq> P) \<and>
      owned (lk_res s) \<subseteq> named (lk_res s) \<and> named (lk_res s) \<subseteq> owned (lk_res s) \<union> halves s \<and>
      halves s \<subseteq> named (lk_res s))"

lemma halves_goto:
  "half_entered (lk_pcs s i) = None \<Longrightarrow> halves (goto i pc s) = halves s \<union> set_option (half_entered pc)"
  by (auto simp: halves_def) (metis option.distinct(1))

lemma halves_goto_bounds:
  "halves (goto i pc s) \<subseteq> halves s \<union> set_option (half_entered pc)"
  "halves s \<subseteq> halves (goto i pc s) \<union> set_option (half_entered (lk_pcs s i))"
  by (auto simp: halves_def split: if_splits)

lemma halves_res [simp]: "halves (s\<lparr>lk_res := r\<rparr>) = halves s"
  by (simp add: halves_def)

lemma cache_from_put_pod: "cache_from P r \<Longrightarrow> p \<in> P \<Longrightarrow> cache_from P (put_pod p r)"
  by (fastforce simp: cache_from_def put_pod_def dest: in_set_dict_set)

lemma owners_from_put_owner: "owners_from P r \<Longrightarrow> p \<in> P \<Longrightarrow> owners_from P (put_owner p r)"
  by (fastforce simp: owners_from_def put_owner_def dest: in_set_dict_set)

lemma caches_frame [simp]:
  "cache_from P (put_owner p r) = cache_from P r" "owners_from P (put_pod p r) = owners_from P r"
  "cache_from P (r\<lparr>api_calls := n\<rparr>) = cache_from P r" "owners_from P (r\<lparr>api_calls := n\<rparr>) = owners_from P r"
  "cache_from P (r\<lparr>path_cache := pc, not_in_kubepods := np\<rparr>) = cache_from P r"
  "owners_from P (r\<lparr>path_cache := pc, not_in_kubepods := np\<rparr>) = owners_from P r"
  "named (put_pod p r) = insert (pod_uid p) (named r)" "owned (put_pod p r) = owned r"
  "owned (put_owner p r) = insert (pod_uid p) (owned r)" "named (put_owner p r) = named r"
  "named (r\<lparr>api_calls := n\<rparr>) = named r" "owned (r\<lparr>api_calls := n\<rparr>) = owned r"
  "named (r\<lparr>path_cache := pc, not_in_kubepods := np\<rparr>) = named r"
  "owned (r\<lparr>path_cache := pc, not_in_kubepods := np\<rparr>) = owned r"
  by (simp_all add: cache_from_def owners_from_def put_pod_def put_owner_def named_def owned_def)

lemma pending_goto:
  "\<forall>i. pending (lk_pcs s i) \<subseteq> P \<Longrightarrow> pending pc \<subseteq> P \<Longrightarrow> \<forall>j. pending (lk_pcs (goto i pc s) j) \<subseteq> P"
  by simp

lemma lookups_okI:
  assumes "lookups_ok P s" "cache_from P r" "owners_from P r" "pending pc \<subseteq> P"
    and "owned r \<subseteq> named r" "named r \<subseteq> owned r \<union> halves (goto i pc s)" "halves (goto i pc s) \<subseteq> named r"
  shows "lookups_ok P (goto i pc (s\<lparr>lk_res := r\<rparr>))"
proof -
  have "halves (goto i pc (s\<lparr>lk_res := r\<rparr>)) = halves (goto i pc s)" by (simp add: halves_def)
  with assms show ?thesis by (simp add: lookups_ok_def)
qed

lemma lookups_ok_goto:
  assumes "lookups_ok P s" "half_entered (lk_pcs s i) = None" "half_entered pc = None" "pending pc \<subseteq> P"
  shows "lookups_ok P (goto i pc s)" "lookups_ok P (goto i pc (s\<lparr>lk_res := (lk_res s)\<lparr>api_calls := n\<rparr>\<rparr>))"
proof -
  have h: "halves (goto i pc s) = halves s" using halves_goto [OF assms(2), of pc] assms(3) by simp
  then show "lookups_ok P (goto i pc s)" using assms(1,4) by (simp add: lookups_ok_def)
  show "lookups_ok P (goto i pc (s\<lparr>lk_res := (lk_res s)\<lparr>api_calls := n\<rparr>\<rparr>))"
    by (rule lookups_okI [OF assms(1)]) (use assms(1,4) in \<open>simp_all add: h lookups_ok_def\<close>)
qed

lemma lookup_step_ok: "lookup_step P s s' \<Longrightarrow> lookups_ok P s \<Longrightarrow> lookups_ok P s'"
proof (induction rule: lookup_step.induct)
  case (pod s i uid p ps result)
  have pend: "pending (lk_pcs s i) \<subseteq> P" and ok: "owned (lk_res s) \<subseteq> named (lk_res s)"
    "named (lk_res s) \<subseteq> owned (lk_res s) \<union> halves s" "halves s \<subseteq> named (lk_res s)"
    "cache_from P (lk_res s)" "owners_from P (lk_res s)"
    using pod(2) by (simp_all add: lookups_ok_def)
  have h: "halves (goto i (LHalf uid p ps result) s) = insert (pod_uid p) (halves s)"
    using pod(1) by (subst halves_goto) simp_all
  show ?case
    by (rule lookups_okI [OF pod(2)]) (use pend ok in \<open>auto simp: h pod(1) cache_from_put_pod\<close>)
next
  case (owner s i uid p ps result)
  have pend: "pending (lk_pcs s i) \<subseteq> P" and ok: "owned (lk_res s) \<subseteq> named (lk_res s)"
    "named (lk_res s) \<subseteq> owned (lk_res s) \<union> halves s" "halves s \<subseteq> named (lk_res s)"
    "cache_from P (lk_res s)" "owners_from P (lk_res s)"
    using owner(2) by (simp_all add: lookups_ok_def)
  let ?pc = "LFill uid ps (found_pod uid p result)"
  have "pod_uid p \<in> halves s" using owner(1) by (auto simp: halves_def intro!: exI [of _ i])
  moreover have "halves (goto i ?pc s) \<subseteq> halves s" "halves s \<subseteq> insert (pod_uid p) (halves (goto i ?pc s))"
    using halves_goto_bounds(1) [of i ?pc s] halves_goto_bounds(2) [of s i ?pc] by (simp_all add: owner(1))
  ultimately show ?case
    by (intro lookups_okI [OF owner(2)]) (use pend ok in \<open>auto simp: owner(1) owners_from_put_owner\<close>)
next
  case (other s paths hosts)
  then show ?case by (simp add: lookups_ok_def)
next
  case (leave s i uid result)
  then show ?case by (intro lookups_ok_goto) simp_all
qed (intro lookups_ok_goto; simp)+

interpretation lookups: step_invariant "lookup_step P" "lookups_ok P" for P
  by unfold_locales (rule lookup_step_ok)

lemma lookups_ok_init: "lookups_ok P lookups_init"
  by (simp add: lookups_ok_def lookups_init_def new_resolver_def cache_from_def owners_from_def halves_def named_def owned_def)

lemma known_pod:
  assumes "lookups_ok P s" "uid_unique P" "p \<in> P"
  shows "map_of (pod_cache (lk_res s)) (pod_uid p) \<in> {None, Some (pod_namespace p, pod_name p)}"
    "map_of (owner_cache (lk_res s)) (pod_uid p) \<in> {None, Some (extract_owner p)}"
proof -
  have u: "q = p" if "q \<in> P" "pod_uid q = pod_uid p" for q
    using that assms(2,3) by (auto simp: uid_unique_def)
  show "map_of (pod_cache (lk_res s)) (pod_uid p) \<in> {None, Some (pod_namespace p, pod_name p)}"
  proof (cases "map_of (pod_cache (lk_res s)) (pod_uid p)")
    case (Some e)
    with map_of_SomeD [OF Some] assms(1) u show ?thesis
      by (fastforce simp: lookups_ok_def cache_from_def)
  qed simp
  show "map_of (owner_cache (lk_res s)) (pod_uid p) \<in> {None, Some (extract_owner p)}"
  proof (cases "map_of (owner_cache (lk_res s)) (pod_uid p)")
    case (Some e)
    with map_of_SomeD [OF Some] assms(1) u show ?thesis
      by (fastforce simp: lookups_ok_def owners_from_def)
  qed simp
qed

section \<open>A pod with an owner\<close>

text \<open>One replica of a Deployment, alone on the node.\<close>

definition replica :: pod where
  "replica = \<lparr>pod_namespace = ''prod'', pod_name = ''api-1'', pod_uid = ''775d7ebb-eae8-4b34-b3cf-ee1b0f8b6ea4'',
     pod_owner_references = Some [(''ReplicaSet'', ''api-7d9f8'')]\<rparr>"

lemma replica_simps [simp]:
  "pod_namespace replica = ''prod''" "pod_name replica = ''api-1''"
  "pod_uid replica = ''775d7ebb-eae8-4b34-b3cf-ee1b0f8b6ea4''"
  by (simp_all add: replica_def)

lemma replica_owner: "extract_owner replica = ''prod/ReplicaSet/api''"
  by (simp add: replica_def extract_owner_def strip_hash_def rsplit1_def py_len_def cont_byte_def byte_def)

definition listed :: "resolver" where
  "listed = put_owner replica (put_pod replica (new_resolver\<lparr>api_calls := 1\<rparr>))"

lemma lookup_replica_init:
  "lookup_pod (Some (\<lambda>n. Inr [replica])) (pod_uid replica) (lk_res lookups_init) =
     (Inr (Some (''prod'', ''api-1'')), listed)"
  by (simp add: lookups_init_def lookup_pod_def listed_def put_owner_def put_pod_def new_resolver_def)

section \<open>Properties\<close>

text \<open>The atomic lookup used elsewhere is one possible execution of the interleaved one: a thread
  that runs through \<open>lookup_pod\<close> undisturbed changes the resolver exactly as the operation does,
  raising included, and when it had to ask and got a reply it leaves with the result the operation
  returns.\<close>
lemma atomic_lookup_is_execution:
  assumes "lookup_pod (Some api) uid (lk_res s) = (v, r')" and "api_from P (Some api)"
    and "lk_pcs s i = LIdle"
  shows "(lookup_step P)\<^sup>*\<^sup>* s (s\<lparr>lk_res := r'\<rparr>) \<and>
     (\<forall>w. map_of (pod_cache (lk_res s)) uid = None \<and> v = Inr w \<longrightarrow>
        (lookup_step P)\<^sup>*\<^sup>* s (goto i (LFill uid [] w) (s\<lparr>lk_res := r'\<rparr>)))"
  using lookup_pod_run [OF assms] lookup_pod_reply [OF _ assms(2,3)] assms(1) by blast

text \<open>An instance: the first lookup of the only pod.\<close>
lemma atomic_lookup_is_execution_instance:
  "(lookup_step {replica})\<^sup>*\<^sup>* lookups_init (lookups_init\<lparr>lk_res := listed\<rparr>) \<and>
   (lookup_step {replica})\<^sup>*\<^sup>* lookups_init
     (goto 0 (LFill (pod_uid replica) [] (Some (''prod'', ''api-1''))) (lookups_init\<lparr>lk_res := listed\<rparr>))"
proof -
  have "api_from {replica} (Some (\<lambda>n. Inr [replica]))" "lk_pcs lookups_init 0 = LIdle"
    "map_of (pod_cache (lk_res lookups_init)) uid = None" for uid
    by (simp_all add: lookups_init_def new_resolver_def api_from_def)
  with atomic_lookup_is_execution [OF lookup_replica_init this(1,2)] show ?thesis by blast
qed

text \<open>C22. In every interleaving of lookups the caches hold nothing but what the API server listed, and
  once no thread is between its two assignments, a pod that can be named also has its owner: the
  repetition rule then counts it under the owner its references give.\<close>
theorem owner_known_at_rest:
  assumes "(lookup_step P)\<^sup>*\<^sup>* lookups_init s" and "uid_unique P" and "p \<in> P"
    and "\<forall>i. half_entered (lk_pcs s i) = None"
    and "map_of (path_cache (lk_res s)) c = Some path" and "extract_pod_uid path = Some (pod_uid p)"
    and "map_of (pod_cache (lk_res s)) (pod_uid p) \<noteq> None"
  shows "resolve core fs c (lk_res s) = (Inr (Some (pod_namespace p, pod_name p)), lk_res s) \<and>
     owner_of core fs c (lk_res s) = (Inr (Some (extract_owner p)), lk_res s)"
proof -
  have ok: "lookups_ok P s" by (rule lookups.reachable [OF assms(1) lookups_ok_init])
  note k = known_pod [OF ok assms(2,3)]
  have "halves s = {}" using assms(4) by (simp add: halves_def)
  then have "map_of (owner_cache (lk_res s)) (pod_uid p) \<noteq> None"
    using ok assms(7) by (auto simp: lookups_ok_def named_def owned_def)
  then have "map_of (owner_cache (lk_res s)) (pod_uid p) = Some (extract_owner p)" using k(2) by auto
  moreover have "map_of (pod_cache (lk_res s)) (pod_uid p) = Some (pod_namespace p, pod_name p)"
    using k(1) assms(7) by auto
  ultimately show ?thesis
    using assms(5,6) resolve_cached owner_of_cached by blast
qed

text \<open>Witness of C22: after one lookup by the classifier, the verdict thread asks for the owner.\<close>
theorem owner_known_at_rest_witness:
  "\<exists>s. (lookup_step {replica})\<^sup>*\<^sup>* lookups_init s \<and>
     owner_of None demo_fs 108000 (lk_res s) = (Inr (Some ''prod/ReplicaSet/api''), lk_res s)"
proof -
  let ?s1 = "lookups_init\<lparr>lk_res := listed\<rparr>"
  let ?s = "?s1\<lparr>lk_res := (lk_res ?s1)\<lparr>path_cache := [(108000, demo_path)], not_in_kubepods := []\<rparr>\<rparr>"
  have "(lookup_step {replica})\<^sup>*\<^sup>* lookups_init ?s1"
    by (rule lookup_pod_run [where api = "\<lambda>n. Inr [replica]" and i = 0, OF lookup_replica_init])
      (simp_all add: lookups_init_def api_from_def)
  moreover have "lookup_step {replica} ?s1 ?s" by (rule other)
  ultimately have run: "(lookup_step {replica})\<^sup>*\<^sup>* lookups_init ?s" by (rule rtranclp.rtrancl_into_rtrancl)
  have "owner_of None demo_fs 108000 (lk_res ?s) = (Inr (Some (extract_owner replica)), lk_res ?s)"
    by (rule owner_known_at_rest [where p = replica and path = demo_path, OF run, THEN conjunct2])
      (simp_all add: uid_unique_def lookups_init_def demo_uids listed_def put_owner_def put_pod_def)
  with run show ?thesis unfolding replica_owner by blast
qed

text \<open>C23. Between the two assignments the owner is lost: while one thread is entering the pods the API
  server listed, another can already name the pod and not yet its owner; a detection recorded at
  that moment is counted under the pod's own name, which no later pod of the owner shares.\<close>
theorem owner_lost_between_assignments:
  assumes "(lookup_step P)\<^sup>*\<^sup>* lookups_init s" and "lk_pcs s i = LFill uid (p # ps) result"
    and "map_of (owner_cache (lk_res s)) (pod_uid p) = None"
    and "map_of (path_cache (lk_res s)) c = Some path" and "extract_pod_uid path = Some (pod_uid p)"
  shows "\<exists>s'. (lookup_step P)\<^sup>*\<^sup>* lookups_init s' \<and> lookup_step P s s' \<and>
     resolve core fs c (lk_res s') = (Inr (Some (pod_namespace p, pod_name p)), lk_res s') \<and>
     (\<forall>env k sh rt. sh_resolver sh = lk_res s' \<and> ki_repeat k = Some rt \<longrightarrow>
        ki_repeat (fst (snd (record_repeat env c (pod_namespace p) (pod_name p) k sh)))
          = Some (fst (record_detection (ke_now env) (pod_namespace p @ ''/'' @ pod_name p) rt)))"
proof -
  let ?s = "goto i (LHalf uid p ps result) (s\<lparr>lk_res := put_pod p (lk_res s)\<rparr>)"
  have step: "lookup_step P s ?s" by (rule pod [OF assms(2)])
  with assms(1) have run: "(lookup_step P)\<^sup>*\<^sup>* lookups_init ?s" by (rule rtranclp.rtrancl_into_rtrancl)
  have caches: "map_of (path_cache (lk_res ?s)) c = Some path"
    "map_of (pod_cache (lk_res ?s)) (pod_uid p) = Some (pod_namespace p, pod_name p)"
    "map_of (owner_cache (lk_res ?s)) (pod_uid p) = None"
    using assms(3,4) by (simp_all add: put_pod_def)
  have "owner_of core' fs' c (lk_res ?s) = (Inr None, lk_res ?s)" for core' fs'
    using caches assms(5) by (simp add: owner_of_def find_cgroup_path_def lookup_pod_def)
  then have "ki_repeat (fst (snd (record_repeat env c (pod_namespace p) (pod_name p) k sh)))
      = Some (fst (record_detection (ke_now env) (pod_namespace p @ ''/'' @ pod_name p) rt))"
    if "sh_resolver sh = lk_res ?s" "ki_repeat k = Some rt" for env k sh rt
    using that by (simp add: record_repeat_def split_beta Let_def)
  moreover have "resolve core fs c (lk_res ?s) = (Inr (Some (pod_namespace p, pod_name p)), lk_res ?s)"
    by (rule resolve_cached [OF caches(1) assms(5) caches(2)])
  ultimately show ?thesis using run step by blast
qed

text \<open>Witness of C23: the classifier has just received the list with the replica.\<close>
theorem owner_lost_between_assignments_witness:
  "\<exists>s'. (lookup_step {replica})\<^sup>*\<^sup>* lookups_init s' \<and>
     (\<forall>env k sh rt. sh_resolver sh = lk_res s' \<and> ki_repeat k = Some rt \<longrightarrow>
        ki_repeat (fst (snd (record_repeat env 108000 ''prod'' ''api-1'' k sh)))
          = Some (fst (record_detection (ke_now env) ''prod/api-1'' rt)))"
proof -
  let ?r = "new_resolver\<lparr>path_cache := [(108000, demo_path)], not_in_kubepods := []\<rparr>"
  let ?s1 = "lookups_init\<lparr>lk_res := ?r\<rparr>"
  let ?s2 = "goto 1 (LCall (pod_uid replica)) ?s1"
  let ?s3 = "goto 1 (LFill (pod_uid replica) [replica] None) (?s2\<lparr>lk_res := ?r\<lparr>api_calls := 1\<rparr>\<rparr>)"
  have "lookup_step {replica} lookups_init ?s1"
    using other [where P = "{replica}" and s = lookups_init and paths = "[(108000, demo_path)]" and hosts = "[]"] by (simp add: lookups_init_def)
  moreover have "lookup_step {replica} ?s1 ?s2"
    by (rule miss) (simp_all add: lookups_init_def new_resolver_def)
  moreover have "lookup_step {replica} ?s2 ?s3"
    using reply [of ?s2 1 "pod_uid replica" "[replica]" "{replica}"] by (simp add: new_resolver_def)
  ultimately have run: "(lookup_step {replica})\<^sup>*\<^sup>* lookups_init ?s3"
    by (meson converse_rtranclp_into_rtranclp rtranclp.rtrancl_refl)
  have "\<exists>s'. (lookup_step {replica})\<^sup>*\<^sup>* lookups_init s' \<and> lookup_step {replica} ?s3 s' \<and>
     resolve None demo_fs 108000 (lk_res s') = (Inr (Some (pod_namespace replica, pod_name replica)), lk_res s') \<and>
     (\<forall>env k sh rt. sh_resolver sh = lk_res s' \<and> ki_repeat k = Some rt \<longrightarrow>
        ki_repeat (fst (snd (record_repeat env 108000 (pod_namespace replica) (pod_name replica) k sh)))
          = Some (fst (record_detection (ke_now env) (pod_namespace replica @ ''/'' @ pod_name replica) rt)))"
    by (rule owner_lost_between_assignments [OF run, where i = 1 and path = demo_path])
      (simp_all add: demo_uids new_resolver_def)
  then show ?thesis by auto
qed

end
