(* ===== verification/Worker.thy ===== *)
theory Worker
  imports ApiWorkers
begin

text \<open>
  The body of the API worker of \<open>core/k8s_killer.py\<close> as sequential code: one task taken off the queue,
  the Event, the deletion with its messages and counters, and the \<open>finally\<close> block. It is related to the
  step relation of \<open>ApiWorkers\<close>, which knows of it only the order of its calls; and from there, what
  becomes of a pod the killer reported as killed. \<open>task_done\<close> is left out: it counts for \<open>Queue.join\<close>,
  which nothing calls.
\<close>

section \<open>The code\<close>

text \<open>What \<open>delete_namespaced_pod\<close> is asked for, and what the worker meets besides a \<open>kenv\<close>: the answer
  to it, and the text of the exception when it raises one.\<close>

record delete_call =
  dc_name :: string
  dc_namespace :: string
  dc_grace_period_seconds :: int

record denv = kenv +
  de_delete :: "delete_call \<Rightarrow> delete_outcome"
  de_delete_error :: string

definition kill_pod :: "denv \<Rightarrow> string \<Rightarrow> string \<Rightarrow> delete_outcome" where
  "kill_pod env namespace name =
     de_delete env \<lparr>dc_name = name, dc_namespace = namespace, dc_grace_period_seconds = 0\<rparr>"

definition msg_event_not_created :: "string \<Rightarrow> string \<Rightarrow> string" where
  "msg_event_not_created who e = ''Event for '' @ who @ '' not created: '' @ e"

definition msg_delete_done :: "string \<Rightarrow> string" where
  "msg_delete_done who = ''API-delete done: '' @ who"

definition msg_already_gone :: "string \<Rightarrow> string" where
  "msg_already_gone who = who @ '' already gone '' @ ''(kubelet beat the API-delete)''"

definition msg_delete_failed :: "string \<Rightarrow> string \<Rightarrow> string" where
  "msg_delete_failed who e = ''API-delete '' @ who @ '' '' @ ''failed: '' @ e"

definition worker_event :: "denv \<Rightarrow> task_item \<Rightarrow> shared \<Rightarrow> bool \<times> shared" where
  "worker_event env it sh =
     (let (namespace, name, reason) = it
      in case emit_event (kenv.truncate env) namespace name reason sh of
           (Inl e, sh) \<Rightarrow>
             (False, log_msg Error (msg_event_not_created (namespace @ ''/'' @ name) (ke_str env e)) sh)
         | (Inr _, sh) \<Rightarrow> (True, sh))"

definition worker_delete :: "denv \<Rightarrow> task_item \<Rightarrow> shared \<Rightarrow> delete_outcome \<times> shared" where
  "worker_delete env it sh =
     (let (namespace, name, reason) = it;
          who = namespace @ ''/'' @ name;
          out = kill_pod env namespace name
      in (out,
          case out of
            Deleted \<Rightarrow> on_metrics (metrics_inc Api_deletes 1) (log_msg Info (msg_delete_done who) sh)
          | ApiStatus status \<Rightarrow>
              (if status = 404 then log_msg Info (msg_already_gone who) sh
               else on_metrics (metrics_inc Api_errors 1)
                      (log_msg Error (msg_delete_failed who (de_delete_error env)) sh))
          | OtherFailure \<Rightarrow> log_msg Error (msg_delete_failed who (de_delete_error env)) sh))"

text \<open>One turn of the loop; a worker that finds the queue empty waits.\<close>

definition api_worker_turn :: "denv \<Rightarrow> killer \<Rightarrow> shared \<Rightarrow> (bool \<times> delete_outcome \<times> killer \<times> shared) option" where
  "api_worker_turn env k sh =
     (case ki_queue k of
        [] \<Rightarrow> None
      | it # q \<Rightarrow>
          (let (ok, sh) = worker_event env it sh;
               (out, sh) = worker_delete env it sh
           in Some (ok, out, k\<lparr>ki_queue := q, ki_in_flight := removeAll (key it) (ki_in_flight k)\<rparr>, sh)))"

section \<open>The code is a run of the step relation\<close>

text \<open>A killer and a metrics collector as the concurrent system sees them.\<close>

definition shows_state :: "api_state \<Rightarrow> killer \<Rightarrow> metrics \<Rightarrow> bool" where
  "shows_state s k m =
     (as_queue s = ki_queue k \<and> as_in_flight s = set (ki_in_flight k) \<and>
      as_api_deletes s = mt_api_deletes m \<and> as_api_errors s = mt_api_errors m \<and>
      as_events_emitted s = mt_events_emitted m)"

lemma log_metrics [simp]: "sh_metrics (log_msg l s sh) = sh_metrics sh"
  by (simp add: log_msg_def add_effect_def)

lemma count_metrics [simp]: "sh_metrics (on_metrics f sh) = map_option f (sh_metrics sh)"
  by (simp add: on_metrics_def)

lemma emit_event_metrics:
  "sh_metrics (snd (emit_event env ns name reason sh)) =
     (if isl (fst (emit_event env ns name reason sh)) then sh_metrics sh
      else map_option (metrics_inc Events_emitted 1) (sh_metrics sh))"
  by (simp add: emit_event_def Let_def add_effect_def split: sum.split)

lemma worker_event_metrics:
  assumes "worker_event env it sh = (ok, sh')" "sh_metrics sh = Some m"
  shows "sh_metrics sh' = Some (if ok then metrics_inc Events_emitted 1 m else m)"
proof -
  obtain ns name reason where it: "it = (ns, name, reason)" by (cases it)
  obtain v sh1 where e: "emit_event (kenv.truncate env) ns name reason sh = (v, sh1)" by fastforce
  then have "sh_metrics sh1 = Some (if isl v then m else metrics_inc Events_emitted 1 m)"
    using emit_event_metrics [of "kenv.truncate env" ns name reason sh] assms(2) by simp
  with assms(1) e show ?thesis by (cases v) (auto simp: worker_event_def it)
qed

lemma worker_delete_metrics:
  assumes "worker_delete env it sh = (out, sh')" "sh_metrics sh = Some m"
  shows "sh_metrics sh' = Some (case out of
      Deleted \<Rightarrow> metrics_inc Api_deletes 1 m
    | ApiStatus status \<Rightarrow> if status = 404 then m else metrics_inc Api_errors 1 m
    | OtherFailure \<Rightarrow> m)"
proof -
  obtain ns name reason where it: "it = (ns, name, reason)" by (cases it)
  have "out = kill_pod env ns name" and "sh' = snd (worker_delete env it sh)"
    using assms(1) by (auto simp: worker_delete_def it Let_def)
  then show ?thesis
    using assms(2) by (cases "kill_pod env ns name") (simp_all add: worker_delete_def it Let_def)
qed

lemma four_steps: "r a b \<Longrightarrow> r b c \<Longrightarrow> r c d \<Longrightarrow> r d e \<Longrightarrow> r\<^sup>*\<^sup>* a e"
  by (meson converse_rtranclp_into_rtranclp r_into_rtranclp)

lemma worker_task_steps:
  assumes "i < workers" "as_workers s i = WIdle" "as_queue s = it # q"
  shows "(worker_step workers)\<^sup>*\<^sup>* s
     (count_delete out (s\<lparr>as_queue := q, as_in_flight := as_in_flight s - {key it},
        as_trace := as_trace s @ [EventTried it ok, DeleteTried it out],
        as_events_emitted := as_events_emitted s + (if ok then 1 else 0)\<rparr>))"
proof -
  let ?s1 = "s\<lparr>as_queue := q, as_workers := (as_workers s)(i := WGot it)\<rparr>"
  let ?s2 = "?s1\<lparr>as_workers := (as_workers ?s1)(i := WEmitted it), as_trace := as_trace ?s1 @ [EventTried it ok],
     as_events_emitted := as_events_emitted ?s1 + (if ok then 1 else 0)\<rparr>"
  let ?s3 = "count_delete out (?s2\<lparr>as_workers := (as_workers ?s2)(i := WDeleted it),
     as_trace := as_trace ?s2 @ [DeleteTried it out]\<rparr>)"
  let ?s4 = "?s3\<lparr>as_in_flight := as_in_flight ?s3 - {key it}, as_workers := (as_workers ?s3)(i := WIdle)\<rparr>"
  have 1: "worker_step workers s ?s1" by (rule get) (use assms in simp_all)
  have 2: "worker_step workers ?s1 ?s2" by (rule emit) (use assms(1) in simp_all)
  have 3: "worker_step workers ?s2 ?s3" by (rule delete) (use assms(1) in simp_all)
  have 4: "worker_step workers ?s3 ?s4" by (rule finish) (use assms(1) in simp_all)
  have idle: "(as_workers s)(i := WIdle) = as_workers s" using assms(2) by auto
  then have final: "?s4 = count_delete out (s\<lparr>as_queue := q, as_in_flight := as_in_flight s - {key it},
        as_trace := as_trace s @ [EventTried it ok, DeleteTried it out],
        as_events_emitted := as_events_emitted s + (if ok then 1 else 0)\<rparr>)"
    by (simp add: count_delete_def split: delete_outcome.split)
  have "(worker_step workers)\<^sup>*\<^sup>* s ?s4" by (rule four_steps) (rule 1, rule 2, rule 3, rule 4)
  then show ?thesis unfolding final .
qed

section \<open>What becomes of a pod that was handed over\<close>

text \<open>A pod is being taken care of: its task is queued, with a worker that has yet to delete, or its
  deletion has been tried.\<close>

definition deletion_tried :: "string \<times> string \<Rightarrow> api_state \<Rightarrow> bool" where
  "deletion_tried pod s = (\<exists>it out. key it = pod \<and> DeleteTried it out \<in> set (as_trace s))"

definition taken_care :: "string \<times> string \<Rightarrow> api_state \<Rightarrow> bool" where
  "taken_care pod s =
     (pod \<in> key ` set (as_queue s) \<or>
      (\<exists>i it. key it = pod \<and> as_workers s i \<in> {WGot it, WEmitted it}) \<or> deletion_tried pod s)"

lemma taken_care_main: "main_step s s' \<Longrightarrow> taken_care pod s \<Longrightarrow> taken_care pod s'"
  by (induction rule: main_step.induct) (auto simp: taken_care_def deletion_tried_def)

lemma taken_careI:
  "pod \<in> key ` set (as_queue s) \<Longrightarrow> taken_care pod s"
  "as_workers s i \<in> {WGot it, WEmitted it} \<Longrightarrow> taken_care (key it) s"
  "DeleteTried it out \<in> set (as_trace s) \<Longrightarrow> taken_care (key it) s"
  unfolding taken_care_def deletion_tried_def by blast+

lemma taken_careE:
  assumes "taken_care pod s"
  obtains (queued) it where "it \<in> set (as_queue s)" "key it = pod"
  | (held) i it where "as_workers s i \<in> {WGot it, WEmitted it}" "key it = pod"
  | (tried) it out where "DeleteTried it out \<in> set (as_trace s)" "key it = pod"
  using assms unfolding taken_care_def deletion_tried_def by blast

lemma worker_step_trace: "worker_step workers s s' \<Longrightarrow> set (as_trace s) \<subseteq> set (as_trace s')"
  by (induction rule: worker_step.induct) auto

text \<open>A worker's step moves a task forward: off the queue to the worker, or on to its deletion.\<close>

lemma worker_step_queue:
  "worker_step workers s s' \<Longrightarrow> it \<in> set (as_queue s) \<Longrightarrow>
     it \<in> set (as_queue s') \<or> (\<exists>i. as_workers s' i = WGot it)"
  by (induction rule: worker_step.induct) auto

lemma worker_step_held:
  "worker_step workers s s' \<Longrightarrow> as_workers s i \<in> {WGot it, WEmitted it} \<Longrightarrow>
     as_workers s' i \<in> {WGot it, WEmitted it} \<or> (\<exists>out. DeleteTried it out \<in> set (as_trace s'))"
  by (induction rule: worker_step.induct) auto

lemma taken_care_worker:
  assumes "worker_step workers s s'" "taken_care pod s"
  shows "taken_care pod s'"
  using assms(2)
proof (cases rule: taken_careE)
  case (queued it)
  with worker_step_queue [OF assms(1)] show ?thesis by (blast intro: taken_careI)
next
  case (held i it)
  with worker_step_held [OF assms(1)] show ?thesis by (blast intro: taken_careI)
next
  case (tried it out)
  with worker_step_trace [OF assms(1)] show ?thesis by (blast intro: taken_careI)
qed

lemma taken_care_step: "taken_care pod s \<Longrightarrow> api_step workers s s' \<Longrightarrow> taken_care pod s'"
  by (auto simp: api_step_def intro: taken_care_main taken_care_worker)

interpretation care: step_invariant "api_step workers" "taken_care pod" for workers pod
  by unfold_locales (rule taken_care_step)

definition deletions_traced :: "api_state \<Rightarrow> bool" where
  "deletions_traced s = (\<forall>i it. as_workers s i = WDeleted it \<longrightarrow> deletion_tried (key it) s)"

lemma deletions_traced_main: "main_step s s' \<Longrightarrow> deletions_traced s \<Longrightarrow> deletions_traced s'"
  by (induction rule: main_step.induct) (auto simp: deletions_traced_def deletion_tried_def)

lemma deletion_tried_mono:
  "deletion_tried pod s \<Longrightarrow> set (as_trace s) \<subseteq> set (as_trace s') \<Longrightarrow> deletion_tried pod s'"
  unfolding deletion_tried_def by blast

lemma worker_step_deleted:
  "worker_step workers s s' \<Longrightarrow> as_workers s' i = WDeleted it \<Longrightarrow>
     as_workers s i = WDeleted it \<or> (\<exists>out. DeleteTried it out \<in> set (as_trace s'))"
  by (induction rule: worker_step.induct) (auto split: if_splits)

lemma deletions_traced_worker:
  assumes "worker_step workers s s'" "deletions_traced s"
  shows "deletions_traced s'"
  unfolding deletions_traced_def
proof (intro allI impI)
  fix i it
  assume "as_workers s' i = WDeleted it"
  with worker_step_deleted [OF assms(1)]
  consider "as_workers s i = WDeleted it" | out where "DeleteTried it out \<in> set (as_trace s')" by blast
  then show "deletion_tried (key it) s'"
  proof cases
    case 1
    with assms(2) have "deletion_tried (key it) s" unfolding deletions_traced_def by blast
    then show ?thesis by (rule deletion_tried_mono) (rule worker_step_trace [OF assms(1)])
  next
    case (2 out)
    then show ?thesis unfolding deletion_tried_def by blast
  qed
qed

lemma deletions_traced_step: "deletions_traced s \<Longrightarrow> api_step workers s s' \<Longrightarrow> deletions_traced s'"
  by (auto simp: api_step_def intro: deletions_traced_main deletions_traced_worker)

interpretation traced: step_invariant "api_step workers" deletions_traced for workers
  by unfold_locales (rule deletions_traced_step)

lemma flight_taken_care:
  assumes "(api_step workers)\<^sup>*\<^sup>* api_init s" "as_main s = MIdle" "pod \<in> as_in_flight s"
  shows "taken_care pod s"
proof -
  have "api_inv s" by (rule places.reachable [OF assms(1) api_inv_init])
  then have "pod \<in> set (map key (as_queue s)) \<or> (\<exists>i. worker_keys (as_workers s) i = Some pod) \<or>
      main_key (as_main s) = Some pod"
    using assms(3) unfolding api_inv_def places_ok_def by blast
  then consider "pod \<in> key ` set (as_queue s)" | i where "worker_key (as_workers s i) = Some pod"
    using assms(2) by (auto simp: worker_keys_def)
  then show ?thesis
  proof cases
    case (2 i)
    have "deletions_traced s"
      by (rule traced.reachable [OF assms(1)]) (simp add: deletions_traced_def api_init_def)
    with 2 show ?thesis
      by (cases "as_workers s i") (auto simp: deletions_traced_def taken_care_def)
  qed (rule taken_careI)
qed

lemma drained_tried:
  assumes "(api_step workers)\<^sup>*\<^sup>* api_init s" "taken_care pod s" "work workers s = 0"
  shows "deletion_tried pod s"
proof -
  have "pool_inv workers s"
    by (rule pool.reachable [OF assms(1)]) (simp add: pool_inv_def api_init_def)
  from no_work [OF assms(3) this] assms(2) show ?thesis by (auto simp: taken_care_def)
qed

text \<open>Reporting a kill means that the pod is in flight, when the queue had room.\<close>

lemma killed_in_flight:
  assumes "handle_kill env c reason k sh = (Inr True, k', sh')" "length (ki_queue k) < queue_maxsize"
  obtains ns name sh0 where "resolve_pod env c sh = (Inr (Some (ns, name)), sh0)" "(ns, name) \<in> set (ki_in_flight k')"
  using assms(1)
proof (cases rule: handle_kill_cases)
  case (killed ns name p uid sh0 k1 sh1)
  have live: "\<not> ki_dry_run k1" using killed(7) by (auto simp: kill_resolved_def)
  obtain b sh2 where f: "freeze_and_kill_cgroup env c sh1 = (b, sh2)" by fastforce
  obtain k2 sh3 where q: "queue_delete ns name reason b k1 sh2 = (k2, sh3)" by fastforce
  have "k' = k2" using killed(7) live f q by (simp add: kill_resolved_def)
  moreover have "(ns, name) \<in> set (ki_in_flight k2)"
    using q assms(2) killed(10) by (auto simp: queue_delete_def Let_def split: if_splits)
  ultimately show ?thesis using that killed(1) by blast
qed simp

definition demo_denv :: denv where
  "demo_denv = \<lparr>ke_core_v1 = demo_api ''prod'', ke_fs = demo_fs, ke_now = 0,
     ke_create_event = (\<lambda>n e. Inr ()), ke_str = (\<lambda>e. []),
     de_delete = (\<lambda>c. ApiStatus 404), de_delete_error = ''(404)''\<rparr>"

lemma demo_killed:
  "\<exists>k' sh'. handle_kill (demo_kenv ''prod'') 108000 ''setns'' demo_killer demo_shared = (Inr True, k', sh')"
  by (simp add: handle_kill_def resolve_pod_def demo_kenv_def demo_shared_def demo_resolve
      demo_killer_def kill_resolved_def split_beta)

section \<open>Properties\<close>

text \<open>C20. The worker's code is a run of the concurrent system: the turn an idle worker takes, whatever
  the Event and the deletion answer, is four steps of the relation, which try the Event and then the
  deletion of the task at the head of the queue, and leave the queue, the pods in flight and the three
  counters the metrics collector exports equal on both sides.\<close>
theorem worker_turn_refines:
  assumes "api_worker_turn env k sh = Some (ok, out, k', sh')" and "shows_state s k m"
    and "sh_metrics sh = Some m" and "i < workers" and "as_workers s i = WIdle"
  shows "\<exists>s' m'. (worker_step workers)\<^sup>*\<^sup>* s s' \<and> sh_metrics sh' = Some m' \<and> shows_state s' k' m' \<and>
     as_workers s' = as_workers s \<and>
     as_trace s' = as_trace s @ [EventTried (hd (ki_queue k)) ok, DeleteTried (hd (ki_queue k)) out]"
proof -
  obtain it q where queue: "ki_queue k = it # q"
    using assms(1) by (auto simp: api_worker_turn_def split: list.splits)
  obtain sh1 where e: "worker_event env it sh = (ok, sh1)" and d: "worker_delete env it sh1 = (out, sh')"
    and k': "k' = k\<lparr>ki_queue := q, ki_in_flight := removeAll (key it) (ki_in_flight k)\<rparr>"
    using assms(1) queue by (auto simp: api_worker_turn_def Let_def split: prod.splits)
  define m1 where "m1 = (if ok then metrics_inc Events_emitted 1 m else m)"
  note m = worker_delete_metrics [OF d worker_event_metrics [OF e assms(3), folded m1_def]]
  let ?s = "count_delete out (s\<lparr>as_queue := q, as_in_flight := as_in_flight s - {key it},
        as_trace := as_trace s @ [EventTried it ok, DeleteTried it out],
        as_events_emitted := as_events_emitted s + (if ok then 1 else 0)\<rparr>)"
  have "(worker_step workers)\<^sup>*\<^sup>* s ?s"
    by (rule worker_task_steps) (use assms(2,4,5) queue in \<open>simp_all add: shows_state_def\<close>)
  moreover have "shows_state ?s k' (case out of
      Deleted \<Rightarrow> metrics_inc Api_deletes 1 m1
    | ApiStatus status \<Rightarrow> if status = 404 then m1 else metrics_inc Api_errors 1 m1
    | OtherFailure \<Rightarrow> m1)"
    using assms(2) by (auto simp: shows_state_def k' m1_def count_delete_def split: delete_outcome.split)
  ultimately show ?thesis using m queue by (intro exI [of _ ?s]) simp
qed

text \<open>Witness of C20: a deletion that meets status 404, after an Event that was created.\<close>
theorem worker_turn_refines_witness:
  "\<exists>k' sh' s' m'. api_worker_turn demo_denv (demo_killer\<lparr>ki_queue := [demo_item], ki_in_flight := [key demo_item]\<rparr>)
       (demo_shared\<lparr>sh_metrics := Some (new_metrics ''worker-1'' 0)\<rparr>) = Some (True, ApiStatus 404, k', sh') \<and>
     (worker_step 2)\<^sup>*\<^sup>* demo_queued s' \<and> sh_metrics sh' = Some m' \<and> shows_state s' k' m' \<and>
     as_trace s' = [EventTried demo_item True, DeleteTried demo_item (ApiStatus 404)]"
proof -
  let ?k = "demo_killer\<lparr>ki_queue := [demo_item], ki_in_flight := [key demo_item]\<rparr>"
  let ?m = "new_metrics ''worker-1'' 0"
  let ?sh = "demo_shared\<lparr>sh_metrics := Some ?m\<rparr>"
  obtain k' sh' where t: "api_worker_turn demo_denv ?k ?sh = Some (True, ApiStatus 404, k', sh')"
    by (simp add: api_worker_turn_def worker_event_def worker_delete_def emit_event_def kill_pod_def demo_denv_def
        demo_item_def kenv.defs split_beta Let_def)
  have "shows_state demo_queued ?k ?m"
    by (simp add: shows_state_def demo_queued_def api_init_def new_metrics_def)
  from worker_turn_refines [OF t this, of 0 2] obtain s' m' where
    "(worker_step 2)\<^sup>*\<^sup>* demo_queued s'" "sh_metrics sh' = Some m'" "shows_state s' k' m'"
    and "as_trace s' = as_trace demo_queued @ [EventTried demo_item True, DeleteTried demo_item (ApiStatus 404)]"
    by (fastforce simp: demo_queued_def api_init_def)
  moreover have "as_trace demo_queued = []" by (simp add: demo_queued_def api_init_def)
  ultimately show ?thesis using t by (metis append_Nil)
qed

text \<open>C5. A reported kill reaches the API server: once \<open>handle_kill\<close> returned True with room in the
  queue, then whatever the verdict thread and the workers do next, the workers alone get to a state
  in which they have nothing left to do, and in every such state the deletion of the resolved pod has
  been tried.\<close>
theorem killed_pod_reaches_api:
  assumes "handle_kill env c reason k sh = (Inr True, k', sh')"
    and "(api_step workers)\<^sup>*\<^sup>* api_init (with_queue k s)" and "length (ki_queue k) < queue_maxsize"
    and "0 < workers" and "(api_step workers)\<^sup>*\<^sup>* (with_queue k' s) s1"
  shows "\<exists>ns name sh0. resolve_pod env c sh = (Inr (Some (ns, name)), sh0) \<and>
     (\<exists>s2. (worker_step workers)\<^sup>*\<^sup>* s1 s2 \<and> work workers s2 = 0) \<and>
     (\<forall>s2. (api_step workers)\<^sup>*\<^sup>* s1 s2 \<and> work workers s2 = 0 \<longrightarrow>
        (\<exists>it out. key it = (ns, name) \<and> DeleteTried it out \<in> set (as_trace s2)))"
proof -
  obtain ns name sh0 where r: "resolve_pod env c sh = (Inr (Some (ns, name)), sh0)"
    and fl: "(ns, name) \<in> set (ki_in_flight k')"
    by (rule killed_in_flight [OF assms(1,3)])
  have here: "(api_step workers)\<^sup>*\<^sup>* api_init (with_queue k' s)"
    using assms(2) main_star_api [OF handle_kill_steps [OF assms(1)]] by (rule rtranclp_trans)
  have "taken_care (ns, name) (with_queue k' s)"
    by (rule flight_taken_care [OF here]) (use fl in \<open>simp_all add: with_queue_def\<close>)
  then have care1: "taken_care (ns, name) s1" by (rule care.reachable [OF assms(5)])
  have "deletion_tried (ns, name) s2" if "(api_step workers)\<^sup>*\<^sup>* s1 s2" "work workers s2 = 0" for s2
    using drained_tried [OF rtranclp_trans [OF rtranclp_trans [OF here assms(5)] that(1)]
        care.reachable [OF that(1) care1] that(2)] .
  with r drain [OF assms(4), of s1] show ?thesis unfolding deletion_tried_def by blast
qed

text \<open>Witness of C5: the kill of the demo cluster's pod, with the two workers of the agent.\<close>
theorem killed_pod_reaches_api_witness:
  "\<exists>k' sh' s2 it out. handle_kill (demo_kenv ''prod'') 108000 ''setns'' demo_killer demo_shared = (Inr True, k', sh') \<and>
     (worker_step 2)\<^sup>*\<^sup>* (with_queue k' api_init) s2 \<and>
     key it = (''prod'', ''attacker'') \<and> DeleteTried it out \<in> set (as_trace s2)"
proof -
  obtain k' sh' where h: "handle_kill (demo_kenv ''prod'') 108000 ''setns'' demo_killer demo_shared = (Inr True, k', sh')"
    using demo_killed by blast
  have start: "(api_step 2)\<^sup>*\<^sup>* api_init (with_queue demo_killer api_init)"
    by (simp add: with_queue_def demo_killer_def api_init_def)
  have "length (ki_queue demo_killer) < queue_maxsize" by (simp add: demo_killer_def queue_maxsize_def)
  from killed_pod_reaches_api [OF h start this _ rtranclp.rtrancl_refl]
  obtain ns name sh0 s2 where r: "resolve_pod (demo_kenv ''prod'') 108000 demo_shared = (Inr (Some (ns, name)), sh0)"
    and s2: "(worker_step 2)\<^sup>*\<^sup>* (with_queue k' api_init) s2"
    and "\<exists>it out. key it = (ns, name) \<and> DeleteTried it out \<in> set (as_trace s2)"
    using worker_star_api by fastforce
  moreover have "(ns, name) = (''prod'', ''attacker'')" using demo_resolve_pod [of "''prod''"] r by simp
  ultimately show ?thesis using h by blast
qed

end
