(* ===== verification/Exposition.thy ===== *)
theory Exposition
  imports Metrics
begin

text \<open>
  The page \<open>Metrics.render\<close> produces, read by the grammar of the text format it claims in its
  \<open>Content-Type\<close>: comment lines, one declaration of a type per metric, and samples whose metric has
  been declared before. The reader is written down independently of the renderer.
\<close>

section \<open>The text format\<close>

text \<open>Names are lower-case letters and underscores here, a part of what the format allows.\<close>

definition name_char :: "char \<Rightarrow> bool" where
  "name_char c = (97 \<le> byte c \<and> byte c \<le> 122 \<or> byte c = 95)"

definition digit :: "char \<Rightarrow> bool" where
  "digit c = (48 \<le> byte c \<and> byte c \<le> 57)"

definition digits :: "string \<Rightarrow> bool" where
  "digits s = (s \<noteq> [] \<and> list_all digit s)"

definition unsigned_number :: "string \<Rightarrow> bool" where
  "unsigned_number s =
     (digits (takeWhile digit s) \<and>
      (case dropWhile digit s of [] \<Rightarrow> True | c # r \<Rightarrow> c = CHR ''.'' \<and> digits r))"

definition number :: "string \<Rightarrow> bool" where
  "number s = (case s of [] \<Rightarrow> False | c # r \<Rightarrow> if c = CHR ''-'' then unsigned_number r else unsigned_number s)"

text \<open>A label value ends at the next quote; without quotes, backslashes and line ends inside it needs
  no escapes.\<close>

definition value_char :: "char \<Rightarrow> bool" where
  "value_char c = (c \<noteq> CHR 0x22 \<and> c \<noteq> CHR 0x5C \<and> c \<noteq> CHR 0x0A)"

definition read_label :: "string \<Rightarrow> ((string \<times> string) \<times> string) option" where
  "read_label s =
     (let k = takeWhile name_char s; v = takeWhile value_char (drop (length k + 2) s)
      in if k \<noteq> [] \<and> take 2 (drop (length k) s) = [CHR ''='', CHR 0x22] \<and>
            take 1 (drop (length k + 2 + length v) s) = [CHR 0x22]
         then Some ((k, v), drop (length k + 3 + length v) s) else None)"

lemma read_label_shorter: "read_label s = Some (l, r) \<Longrightarrow> length r < length s"
  by (cases "s = []") (auto simp: read_label_def Let_def split: if_splits)

text \<open>The labels up to the closing brace, and what follows it.\<close>

function read_labels :: "string \<Rightarrow> ((string \<times> string) list \<times> string) option" where
  "read_labels s =
     (case read_label s of
        None \<Rightarrow> None
      | Some (l, []) \<Rightarrow> None
      | Some (l, c # r) \<Rightarrow>
          (if c = CHR ''}'' then Some ([l], r)
           else if c = CHR '','' then map_option (\<lambda>(ls, rest). (l # ls, rest)) (read_labels r)
           else None))"
  by pat_completeness auto

termination
  by (relation "measure length") (auto dest!: read_label_shorter)

declare read_labels.simps [simp del]

datatype line = Comment | Declares string string | Sampled string "(string \<times> string) list" string

definition read_sample :: "string \<Rightarrow> line option" where
  "read_sample s =
     (let name = takeWhile name_char s
      in if name = [] then None
         else (case dropWhile name_char s of
                 [] \<Rightarrow> None
               | c # r \<Rightarrow>
                   (if c \<noteq> CHR ''{'' then None
                    else (case read_labels r of
                            Some (ls, d # v) \<Rightarrow> if d = CHR '' '' \<and> number v then Some (Sampled name ls v) else None
                          | _ \<Rightarrow> None))))"

definition read_type :: "string \<Rightarrow> line option" where
  "read_type s =
     (let name = takeWhile name_char s; kind = drop (length name + 1) s
      in if name \<noteq> [] \<and> take 1 (drop (length name) s) = '' '' \<and> kind \<in> {''counter'', ''gauge'', ''summary''}
         then Some (Declares name kind) else None)"

definition read_line :: "string \<Rightarrow> line option" where
  "read_line s =
     (if take 7 s = ''# HELP '' then Some Comment
      else if take 7 s = ''# TYPE '' then read_type (drop 7 s)
      else read_sample s)"

text \<open>The metric a sample belongs to: its name, or for a summary the name without the suffix.\<close>

definition declared_for :: "(string \<times> string) list \<Rightarrow> string \<Rightarrow> bool" where
  "declared_for types name =
     (case map_of types name of
        Some kind \<Rightarrow> kind \<noteq> ''summary''
      | None \<Rightarrow> list_ex (\<lambda>(n, kind). kind = ''summary'' \<and> (name = n @ ''_sum'' \<or> name = n @ ''_count'')) types)"

fun valid_lines :: "(string \<times> string) list \<Rightarrow> string list \<Rightarrow> bool" where
  "valid_lines types [] = True"
| "valid_lines types (l # ls) =
     (case read_line l of
        None \<Rightarrow> False
      | Some Comment \<Rightarrow> valid_lines types ls
      | Some (Declares name kind) \<Rightarrow> map_of types name = None \<and> valid_lines ((name, kind) # types) ls
      | Some (Sampled name labels v) \<Rightarrow> declared_for types name \<and> valid_lines types ls)"

text \<open>A page is a sequence of lines, each with its line end.\<close>

definition valid_page :: "string \<Rightarrow> bool" where
  "valid_page text =
     (let ls = split_on (CHR 0x0A) text in last ls = [] \<and> valid_lines [] (butlast ls))"

section \<open>Numbers\<close>

lemma digit_char_digit: "d < 10 \<Longrightarrow> digit (digit_char d)"
  by (auto simp: digit_def digit_char_def byte_def numeral_eq_Suc less_Suc_eq)

lemma show_nat_digits: "digits (show_nat n)"
proof (induction n rule: show_nat.induct)
  case (1 n)
  then show ?case
    by (subst show_nat.simps) (auto simp: digits_def digit_char_digit)
qed

lemma digits_takeWhile: "digits s \<Longrightarrow> takeWhile digit s = s \<and> dropWhile digit s = []"
  by (auto simp: digits_def list_all_iff)

lemma digits_number: "digits s \<Longrightarrow> unsigned_number s"
  by (simp add: unsigned_number_def digits_takeWhile)

lemma dot_not_digit: "\<not> digit (CHR ''.'')" "\<not> digit (CHR ''-'')"
  by (simp_all add: digit_def byte_def)

lemma fixed_number: "digits a \<Longrightarrow> digits b \<Longrightarrow> unsigned_number (a @ CHR ''.'' # b)"
  by (auto simp: unsigned_number_def digits_def list_all_iff dot_not_digit takeWhile_append dropWhile_append)

lemma zero_pad_digits: "digits s \<Longrightarrow> digits (zero_pad k s)"
  by (auto simp: digits_def zero_pad_def list_all_iff digit_def byte_def)

lemma unsigned_number_number: "unsigned_number s \<Longrightarrow> number s \<and> number (CHR ''-'' # s)"
  by (cases s) (auto simp: number_def unsigned_number_def digits_def dot_not_digit)

lemma show_int_number: "number (show_int i)"
  using unsigned_number_number [OF digits_number [OF show_nat_digits]] by (simp add: show_int_def)

lemma fmt_fixed_number: "number (fmt_fixed k r)"
proof -
  have "unsigned_number (show_nat a @ CHR ''.'' # zero_pad k (show_nat b))" for a b
    by (intro fixed_number show_nat_digits zero_pad_digits)
  then show ?thesis
    using unsigned_number_number digits_number [OF show_nat_digits] by (simp add: fmt_fixed_def Let_def)
qed

section \<open>Lines\<close>

text \<open>What the renderer prints is what the reader reads.\<close>

definition is_name :: "string \<Rightarrow> bool" where
  "is_name s = (s \<noteq> [] \<and> list_all name_char s)"

definition safe_value :: "string \<Rightarrow> bool" where
  "safe_value s = list_all value_char s"

lemma takeWhile_name: "is_name n \<Longrightarrow> \<not> name_char c \<Longrightarrow> takeWhile name_char (n @ c # r) = n"
  by (auto simp: is_name_def list_all_iff takeWhile_append)

lemma dropWhile_name: "is_name n \<Longrightarrow> \<not> name_char c \<Longrightarrow> dropWhile name_char (n @ c # r) = c # r"
  by (auto simp: is_name_def list_all_iff dropWhile_append)

lemma takeWhile_value: "safe_value v \<Longrightarrow> takeWhile value_char (v @ CHR 0x22 # r) = v"
  by (auto simp: safe_value_def list_all_iff takeWhile_append value_char_def)

lemma separators: "\<not> name_char (CHR ''='')" "\<not> name_char (CHR ''{'')" "\<not> name_char (CHR '' '')" "\<not> name_char (CHR ''#'')"
  by (simp_all add: name_char_def byte_def)

lemma read_label_label:
  assumes "is_name k" "safe_value v"
  shows "read_label (label k v @ r) = Some ((k, v), r)"
proof -
  have "takeWhile name_char (k @ CHR ''='' # CHR 0x22 # v @ CHR 0x22 # r) = k"
    by (rule takeWhile_name [OF assms(1) separators(1)])
  moreover have "takeWhile value_char (v @ CHR 0x22 # r) = v" by (rule takeWhile_value [OF assms(2)])
  ultimately show ?thesis
    using assms(1) by (simp add: read_label_def label_def quoted_def Let_def is_name_def numeral_3_eq_3)
qed

definition label_ok :: "string \<times> string \<Rightarrow> bool" where
  "label_ok l = (is_name (fst l) \<and> safe_value (snd l))"

lemma read_labels_join:
  "ls \<noteq> [] \<Longrightarrow> list_all label_ok ls \<Longrightarrow>
     read_labels (join '','' (map (\<lambda>(k, v). label k v) ls) @ CHR ''}'' # r) = Some (ls, r)"
proof (induction ls rule: induct_list012)
  case (2 l)
  then show ?case
    by (cases l) (subst read_labels.simps, simp add: label_ok_def read_label_label)
next
  case (3 l l' ls)
  obtain k v where l: "l = (k, v)" by (cases l)
  have "read_labels (join '','' (map (\<lambda>(k, v). label k v) (l' # ls)) @ CHR ''}'' # r) = Some (l' # ls, r)"
    using 3 by simp
  with 3(4) show ?case
    by (subst read_labels.simps) (simp add: label_ok_def read_label_label l)
qed simp

lemma read_sample_line:
  assumes "is_name name" "ls \<noteq> []" "list_all label_ok ls" "number v"
  shows "read_line (sample name (map (\<lambda>(k, v). label k v) ls) v) = Some (Sampled name ls v)"
proof -
  let ?s = "sample name (map (\<lambda>(k, v). label k v) ls) v"
  have s: "?s = name @ CHR ''{'' # (join '','' (map (\<lambda>(k, v). label k v) ls) @ CHR ''}'' # CHR '' '' # v)"
    by (simp add: sample_def)
  have "read_sample ?s = Some (Sampled name ls v)"
    unfolding read_sample_def s takeWhile_name [OF assms(1) separators(2)] dropWhile_name [OF assms(1) separators(2)]
    using assms(1,4) by (simp add: read_labels_join [OF assms(2,3)] is_name_def)
  moreover have "take 7 ?s \<noteq> CHR ''#'' # x" for x
    unfolding s using assms(1) separators(4) by (cases name) (auto simp: is_name_def)
  ultimately show ?thesis by (simp add: read_line_def)
qed

lemma read_help_line: "read_line (help_line n t) = Some Comment"
  by (simp add: read_line_def help_line_def)

lemma read_type_line:
  assumes "is_name n" "kind \<in> {''counter'', ''gauge'', ''summary''}"
  shows "read_line (type_line n kind) = Some (Declares n kind)"
proof -
  have "takeWhile name_char (n @ CHR '' '' # kind) = n" by (rule takeWhile_name [OF assms(1) separators(3)])
  with assms show ?thesis by (auto simp: read_line_def type_line_def read_type_def Let_def is_name_def)
qed

section \<open>The page\<close>

text \<open>The series of a dictionary: samples of one declared metric.\<close>

lemma valid_lines_samples:
  assumes "list_all (\<lambda>l. \<exists>ls v. read_line l = Some (Sampled name ls v)) ls" "declared_for types name"
  shows "valid_lines types (ls @ rest) = valid_lines types rest"
  using assms(1) by (induction ls) (auto simp: assms(2))

definition safe_keys :: "(string \<times> int) list \<Rightarrow> bool" where
  "safe_keys d = list_all (\<lambda>(k, n). safe_value k) d"

definition labels_safe :: "metrics \<Rightarrow> bool" where
  "labels_safe m =
     (safe_value (mt_node m) \<and> list_all (\<lambda>((ns, d), n). safe_value ns \<and> safe_value d) (mt_detections m) \<and>
      safe_keys (mt_escalations m) \<and> safe_keys (mt_cgroup_classes m) \<and> safe_keys (mt_cache_entries m))"

lemma sample_one:
  assumes "is_name name" "number v" "label_ok (k, x)"
  shows "read_line (sample name [label k x] v) = Some (Sampled name [(k, x)] v)"
  using read_sample_line [OF assms(1) _ _ assms(2), of "[(k, x)]"] assms(3) by simp

lemma sample_two:
  assumes "is_name name" "number v" "label_ok (k, x)" "label_ok (k2, x2)"
  shows "read_line (sample name [label k x, label k2 x2] v) = Some (Sampled name [(k, x), (k2, x2)] v)"
  using read_sample_line [OF assms(1) _ _ assms(2), of "[(k, x), (k2, x2)]"] assms(3,4) by simp

lemma sample_three:
  assumes "is_name name" "number v" "label_ok (k, x)" "label_ok (k2, x2)" "label_ok (k3, x3)"
  shows "read_line (sample name [label k x, label k2 x2, label k3 x3] v) = Some (Sampled name [(k, x), (k2, x2), (k3, x3)] v)"
  using read_sample_line [OF assms(1) _ _ assms(2), of "[(k, x), (k2, x2), (k3, x3)]"] assms(3-5) by simp

lemmas sample_line = sample_one sample_two sample_three

lemma number_one [simp]: "number ''1''"
  by (simp add: number_def unsigned_number_def digits_def digit_def byte_def)

lemma metric_names [simp]:
  "is_name ''kubewarden_up''"
  "is_name ''kubewarden_info''"
  "is_name ''kubewarden_uptime_seconds''"
  "is_name ''kubewarden_events_total''"
  "is_name ''kubewarden_events_dropped_total''"
  "is_name ''kubewarden_events_filtered_total''"
  "is_name ''kubewarden_events_passed_total''"
  "is_name ''kubewarden_detections_total''"
  "is_name ''kubewarden_escalations_total''"
  "is_name ''kubewarden_kills_total''"
  "is_name ''kubewarden_api_errors_total''"
  "is_name ''kubewarden_events_emitted_total''"
  "is_name ''kubewarden_resolve_failures_total''"
  "is_name ''kubewarden_event_latency_seconds''"
  "is_name ''kubewarden_event_latency_seconds_sum''"
  "is_name ''kubewarden_event_latency_seconds_count''"
  "is_name ''kubewarden_event_latency_max_seconds''"
  "is_name ''kubewarden_cgroups''"
  "is_name ''kubewarden_armed_cgroups''"
  "is_name ''kubewarden_repeat_sources''"
  "is_name ''kubewarden_cache_entries''"
  "is_name ''kubewarden_cgroup_sync_duration_seconds''"
  by (simp_all add: is_name_def name_char_def byte_def)

lemma label_names [simp]:
  "is_name ''node''" "is_name ''version''" "is_name ''namespace''" "is_name ''decision''" "is_name ''method''" "is_name ''class''" "is_name ''cache''"
  by (simp_all add: is_name_def name_char_def byte_def)

lemma fixed_values [simp]:
  "safe_value ''kernel_signal''" "safe_value ''cgroup_kill''" "safe_value ''api_delete''" "safe_value version"
  by (simp_all add: safe_value_def value_char_def version_def)

lemma rendered_lines:
  assumes "labels_safe m"
  shows "valid_lines [] (render_lines now m)"
proof -
  let ?n = "label ''node'' (mt_node m)"
  have node: "safe_value (mt_node m)" using assms by (simp add: labels_safe_def)
  have detections: "list_all (\<lambda>l. \<exists>ls v. read_line l = Some (Sampled ''kubewarden_detections_total'' ls v))
      (map (\<lambda>((ns, dec), cnt). sample ''kubewarden_detections_total'' [?n, label ''namespace'' ns, label ''decision'' dec]
         (show_int cnt)) (sorted_items (mt_detections m)))"
    using assms node
    by (auto simp: labels_safe_def list_all_iff sorted_items_def sample_line label_ok_def show_int_number)
  have keyed: "list_all (\<lambda>l. \<exists>ls v. read_line l = Some (Sampled name ls v))
      (map (\<lambda>(k, cnt). sample name [?n, label key k] (show_int cnt)) (sorted_items d))"
    if "is_name name" "is_name key" "safe_keys d" for name key d
    using that node
    by (auto simp: safe_keys_def list_all_iff sorted_items_def sample_line label_ok_def show_int_number)
  have dicts: "safe_keys (mt_escalations m)" "safe_keys (mt_cgroup_classes m)" "safe_keys (mt_cache_entries m)"
    using assms by (simp_all add: labels_safe_def)
  show ?thesis
    unfolding render_lines_def Let_def
    by (simp add: valid_lines_samples [OF detections] valid_lines_samples [OF keyed] dicts read_help_line read_type_line
        sample_line label_ok_def node show_int_number fmt_fixed_number declared_for_def del: split_paired_All)
qed

text \<open>The whole page, and what the updates keep of the label values.\<close>

lemma safe_one_line: "safe_value s \<Longrightarrow> one_line s"
  by (auto simp: safe_value_def one_line_def list_all_iff value_char_def)

lemma labels_safe_one_line: "labels_safe m \<Longrightarrow> labels_one_line m"
  unfolding labels_safe_def labels_one_line_def safe_keys_def
  by (auto simp: list_all_iff safe_one_line)

lemma rendered_page: "labels_safe m \<Longrightarrow> valid_page (render now m)"
  by (simp add: valid_page_def split_render labels_safe_one_line rendered_lines)

fun update_safe :: "metric_update \<Rightarrow> bool" where
  "update_safe (OnDetection ns d) = (safe_value ns \<and> safe_value d)"
| "update_safe (OnEscalation ns) = safe_value ns"
| "update_safe (SetGauges armed classes entries sources ms) = (safe_keys classes \<and> safe_keys entries)"
| "update_safe _ = True"

lemma or_unknown_safe: "safe_value ns \<Longrightarrow> safe_value (or_unknown ns)"
  by (simp add: or_unknown_def safe_value_def value_char_def)

lemma labels_safe_update:
  assumes "labels_safe m" and "update_safe u"
  shows "labels_safe (apply_update u m)"
proof (cases u)
  case (OnDetection ns d)
  with assms show ?thesis
    by (auto simp: labels_safe_def safe_keys_def metrics_on_detection_def Let_def list_all_iff
        or_unknown_safe dest!: in_set_dict_set)
next
  case (OnEscalation ns)
  with assms show ?thesis
    by (auto simp: labels_safe_def safe_keys_def metrics_on_escalation_def Let_def list_all_iff
        or_unknown_safe dest!: in_set_dict_set)
qed (use assms in \<open>simp_all add: labels_safe_def metrics_on_event_frame metrics_inc_frame detections_unchanged
  metrics_on_lost_def metrics_set_gauges_def\<close>)

lemma labels_safe_run: "labels_safe m \<Longrightarrow> list_all update_safe us \<Longrightarrow> labels_safe (run_updates us m)"
  by (induction us arbitrary: m) (simp_all add: labels_safe_update)

lemma labels_safe_new: "safe_value node \<Longrightarrow> labels_safe (new_metrics node t)"
  by (simp add: labels_safe_def safe_keys_def new_metrics_def)

section \<open>Properties\<close>

text \<open>C36. Whatever is recorded, the page a scraper gets is well formed in the text format its
  header announces: every line is a comment, a declaration of a metric not declared before, or a
  sample of a declared metric whose labels and number a reader of the format parses, and the page ends with a line
  end. The names of the node, the namespaces, the decisions, the classes and the caches must be free of quotes,
  backslashes and line ends, which the renderer does not escape.\<close>
theorem exposition_well_formed:
  assumes "safe_value node" and "list_all update_safe us"
  shows "valid_page (render now (run_updates us (new_metrics node started)))"
  by (rule rendered_page [OF labels_safe_run [OF labels_safe_new [OF assms(1)] assms(2)]])

text \<open>Witness of C36: a kill in a namespace, a repeat escalation with no namespace, and the gauges of a
  resync.\<close>
theorem exposition_well_formed_witness:
  "valid_page (render 60 (run_updates
     [OnEvent 2 True, OnDetection ''prod'' ''KILL'', OnEscalation [], Increment Cgroup_kills 1,
      SetGauges 3 [(''workload'', 3), (''host'', 12)] [(''by_uid'', 7)] 1 4]
     (new_metrics ''worker-1'' 0)))"
  by (rule exposition_well_formed) (simp_all add: safe_value_def safe_keys_def value_char_def)

end
