(* ===== verification/Spec2Isabelle.thy ===== *)
theory Spec2Isabelle
  imports Monitor NodeFilter Wire ResolverThreads Worker Exposition
begin

text \<open>
  \<^bold>\<open>KubeWarden\<close> is an agent that runs on every node of a Kubernetes cluster. An eBPF program watches
  the system calls of all processes; a Python process reads its events, adds up per container how
  suspicious they are, and answers with a warning, with the death of the container's processes or
  with the deletion of the pod. This library models both halves and proves what makes them correct.

  \<^bold>\<open>How the parts interact.\<close> A tracepoint probe (\<open>Kernel\<close>) drops the events of cgroups classified as
  host or excluded, may send SIGKILL by itself, and submits a record. \<open>SyscallTracer._handle_event\<close>
  (\<open>Tracer\<close>) decodes it, counts it and discards known noise. \<open>on_event\<close> (\<open>Agent\<close>) asks the pod
  resolver (\<open>Resolver\<close>) whether the cgroup is a pod's, adds the event to the container's story
  (\<open>Correlator\<close>), asks the policy (\<open>Policy\<close>) for a decision and, when the decision changed, reacts:
  WARN arms the cgroup in the kernel's map, KILL calls the killer (\<open>Killer\<close>), which resolves the pod,
  applies the namespace lists and the repetition rule (\<open>Repeat\<close>), writes \<open>cgroup.kill\<close> and queues the
  deletion for the API workers (\<open>ApiWorkers\<close>). In the background \<open>CgroupSync\<close> walks cgroupfs and
  writes the classes the probes read. \<open>Metrics\<close> counts it all and renders it for Prometheus.

  \<^bold>\<open>Theories and sources.\<close>
  \<^item> \<open>Prelude\<close>, \<open>PyText\<close>, \<open>Utf8\<close>, \<open>Window\<close>: exceptions as sums (\<open>result\<close>, \<open>and_then\<close>), insertion-ordered
    dictionaries, the string methods and number formatting the code uses, decoding with replacement
    characters, and the locale of a sliding window of time-stamped entries, which the correlator and
    the repeat tracker interpret.
  \<^item> \<open>Correlator\<close>: \<open>core/correlator.py\<close>. \<open>attack_story\<close> is \<open>AttackStory\<close>; \<open>story_add\<close>, \<open>evict_old\<close>,
    \<open>story_summary\<close>, \<open>score_event\<close>, \<open>process\<close> and \<open>forget_story\<close> are its methods.
  \<^item> \<open>Policy\<close>: \<open>core/policy_engine.py\<close>, from the loaded YAML document on (\<open>policy_init\<close>, \<open>evaluate\<close>,
    \<open>policy_reason\<close>); \<open>shipped_config\<close> is \<open>policies/policies.yaml\<close>.
  \<^item> \<open>Repeat\<close>: \<open>core/repeat_tracker.py\<close> (\<open>record_detection\<close>, \<open>describe_repeat\<close>, \<open>tracker_summary\<close>).
  \<^item> \<open>CgroupFs\<close>: cgroupfs as a tree with inodes, \<open>os.walk\<close> over it and the directories the code walks.
  \<^item> \<open>Resolver\<close>: \<open>core/pod_resolver.py\<close> with its four caches.
  \<^item> \<open>Kernel\<close>: the C program in \<open>bpf/syscall_tracer.py\<close>, its maps, filter, two kill responses and
    fifteen probes, on machine words.
  \<^item> \<open>BpfMap\<close>: the bcc table object, as a locale and its interpretation.
  \<^item> \<open>Tracer\<close>: the Python class in \<open>bpf/syscall_tracer.py\<close>.
  \<^item> \<open>CgroupSync\<close>: \<open>core/cgroup_sync.py\<close>. The class table and the resolver it shares with the agent are
    passed in and returned.
  \<^item> \<open>Metrics\<close>: \<open>core/metrics.py\<close>, up to the text of a scrape and the answers of the HTTP handler.
  \<^item> \<open>Killer\<close>, \<open>ApiWorkers\<close>: \<open>core/k8s_killer.py\<close>, first as the sequential code of \<open>handle_kill\<close>, then
    as the step relation of the verdict thread and the worker pool.
  \<^item> \<open>Worker\<close>: the body of \<open>_api_worker\<close> with its messages and counters as sequential code
    (\<open>api_worker_turn\<close>), related to the steps of \<open>ApiWorkers\<close>; and what becomes of a pod handed over.
  \<^item> \<open>Exposition\<close>: a reader of the text format \<open>Metrics\<close> prints, independent of the printer.
  \<^item> \<open>Agent\<close>: \<open>main.py\<close>. The variables \<open>on_event\<close> closes over are the record \<open>agent\<close>; \<open>main_setup\<close> and
    \<open>launch\<close> are what \<open>main\<close> does before it polls; \<open>agent_handle\<close> is one record off the perf buffer.
  \<^item> \<open>Wire\<close>: the record between the two halves of \<open>bpf/syscall_tracer.py\<close>: the bytes of
    \<open>struct event_t\<close> as \<open>perf_submit\<close> copies them out and the \<open>ctypes\<close> structure \<open>Event\<close> through which
    \<open>_handle_event\<close> reads them.
  \<^item> \<open>ResolverThreads\<close>: \<open>PodResolver.lookup_pod\<close> taken apart into its assignments, run by several
    threads at once.
  \<^item> \<open>NodeFilter\<close>: the table of classes on the running node, written by the prefill and by every scan,
    with the resolver the scans and the callback share.
  \<^item> \<open>Startup\<close>: the lines by which \<open>main.py\<close> announces its mode, and \<open>poll_loop\<close>.
  \<^item> \<open>Node\<close>: all of it running at once, as a step relation: system calls, deliveries out of order,
    losses, scans and gauge refreshes interleave over the maps user space and the kernel share.
  \<^item> \<open>Monitor\<close>: the abstract specification of the agent, a machine of an alert level and an arming for
    each container (\<open>react\<close>), and the simulation of the running node by it.
  \<^item> This theory: properties that cut across the parts.

  \<^bold>\<open>Conventions.\<close> An object is a record, a method returns it updated; an exception is \<open>Inl\<close>, and the
  state beside it is what the code had changed when it was raised. Objects several components share
  (resolver, metrics, effects on the outside world) are one record \<open>shared\<close>. What the outside answers
  (API server, file system, clock, the table's acceptance of a write) is an environment argument,
  a fresh one for each call, so that a theorem over a run holds whatever the world does between
  events. Dictionaries whose order shows are association lists in insertion order.

  \<^bold>\<open>What the lemmas show.\<close> Of each component: the invariant of its state and that every operation
  keeps it (stories, caches, counters, pods in flight), the functional meaning of its operations on
  every branch, and its interface laws, as locales interpreted on the model. Across components: from
  a red line to the dead pod (\<open>escape_kills_pod\<close>), from the warning to the armed kernel
  (\<open>Agent.warning_arms_kernel\<close>), the modes that never act, the isolation of containers from each
  other, what the in-kernel filter can hide, and that \<open>handle_kill\<close> is an execution of the verdict
  thread of the concurrent model. Of every reachable state of a node: the safe modes do nothing
  (\<open>Node.observation_only\<close>), every kernel kill has its explanation in the log
  (\<open>Node.kernel_responses_announced\<close>), no record vanishes (\<open>Node.every_record_accounted\<close>), the filter
  hides nothing but host processes and excluded namespaces
  (\<open>NodeFilter.filter_hides_only_hosts_and_excluded\<close>), arming ends only with a kill (\<open>Node.armed_until_killed\<close>), and on a kernel without the helpers the arming the
  log announces has no effect (\<open>Startup.arming_without_enforcement\<close>). Of every container: the agent is a
  monitor with two components of state (\<open>Monitor.agent_refines_monitor\<close>), so the monitor's invariants are
  the node's (\<open>Monitor.armed_only_with_flag\<close>), and a kill that raised is not tried again while the verdict stays
  (\<open>Monitor.failed_kill_never_retried\<close>). Of the deletions: the worker's code runs the steps of the
  concurrent model (\<open>Worker.worker_turn_refines\<close>), and a pod reported as killed has its deletion tried
  (\<open>Worker.killed_pod_reaches_api\<close>). Of the exposition: every page is well formed
  (\<open>Exposition.exposition_well_formed\<close>). Of the seams: the byte layout
  loses nothing (\<open>Wire.wire_transparent\<close>), what reaches the agent is within bounds whatever the bytes
  (\<open>Wire.events_bounded\<close>), and of the unlocked resolver exactly what survives any interleaving
  (\<open>ResolverThreads.owner_known_at_rest\<close>) and what does not
  (\<open>ResolverThreads.owner_lost_between_assignments\<close>).

  \<^bold>\<open>Bounds.\<close> The window is 30 seconds, the queue holds 1000 deletions, an Event's message 1024
  characters, as in the code; the number of workers is a parameter. No definition uses fuel: loops
  recurse on the list they consume, the UTF-8 decoder on the number of bytes left. That the
  workers drain the queue is proved with a measure on the tasks in progress
  (\<open>ApiWorkers.deletions_drain\<close>).

  \<^bold>\<open>Idealisations.\<close> Python floats are exact rationals, formatted by rounding half to even. A Python
  \<open>str\<close> is the list of its UTF-8 bytes. An operation on a shared object is atomic, and so is one scan
  of the classifier; that an undisturbed \<open>lookup_pod\<close> is an execution of the interleaved one, and what
  interleaving adds, is the subject of \<open>ResolverThreads\<close>; the file system does not
  change during one operation. Perf records that get lost are those missing from a run of the agent;
  in \<open>Node\<close> the loss is a step.

  \<^bold>\<open>Not modelled.\<close> Argument parsing, the startup lines that do not name the mode, the log lines of the prefill, \<open>_gauge_loop\<close>
  (an endless loop around a sleep; what each turn does is \<open>update_gauges\<close>), the demonstration callback
  at the end of \<open>bpf/syscall_tracer.py\<close>, the thread of the HTTP server, the Kubernetes client, bcc and
  the kernel helpers, the YAML parser, and the manifests under \<open>deploy/\<close>.
\<close>

section \<open>From the system call to the kill\<close>

text \<open>C1. The pipeline works end to end: when a process of a pod, under a name no filter discards, makes
  a system call that is a red line, the record the kernel submits for it makes the agent write the
  \<open>cgroup.kill\<close> file of exactly that pod's cgroup, and forget its story, decision and arming; for
  any policy whose kill threshold is at most 100, a killer that may kill in the namespace, a pod the
  resolver knows, and an event no older than the window.\<close>
theorem escape_kills_pod:
  assumes "submitted (run_probe sc enforce m t fam arg) = Some raw" and "response sc = RedLine"
    and "\<not> is_noise (decode_replace (c_string 16 (t_comm t)))"
    and "correlator_ok (ag_stories a)"
    and "numeric (kill_threshold (ag_policy a)) = Some threshold" and "threshold \<le> 100"
    and "ae_clock env - correlation_window_sec \<le> of_int (uint (t_ktime t)) / 10 ^ 9"
    and "ag_last_decision a (uint (t_cgroup_id t)) \<noteq> Some KILL"
    and "ag_killer a = Some k" and "may_kill env k ns p"
    and "knows_pod (ag_shared a) (uint (t_cgroup_id t)) p ns name"
    and "agent_handle env now raw tr a = (v, tr', a')"
  shows "v = Inr () \<and>
     kills (sh_effects (ag_shared a')) = kills (sh_effects (ag_shared a)) @ [p] \<and>
     ag_stories a' (uint (t_cgroup_id t)) = None \<and>
     ag_last_decision a' (uint (t_cgroup_id t)) = None \<and> ag_armed a' (t_cgroup_id t) = None"
proof -
  have raw: "raw_comm raw = t_comm t" "raw_cgroup_id raw = t_cgroup_id t" "raw_ktime raw = t_ktime t"
    "raw_syscall_type raw = type_code sc"
    using assms(1) by (auto simp: run_probe_spec perf_submit_def dropped_def probe_event_def split: if_splits)
  have "threshold \<le> of_int (score_event (parse_event now raw))"
  proof (rule order_trans [OF assms(6)])
    show "(100 :: rat) \<le> of_int (score_event (parse_event now raw))"
      using red_line_score [OF assms(2) raw(4), of now] by linarith
  qed
  with conclusive_record_kills [OF assms(12), of threshold k ns p name] assms(3-5,7-11) raw
  show ?thesis by (simp add: agent_ok_def)
qed

text \<open>Witness of C1: \<open>nsenter\<close> in the demo deployment.\<close>
theorem escape_kills_pod_witness:
  "\<exists>raw v tr' a'.
     submitted (run_probe Setns False \<lparr>armed_cgroups = Map.empty, cgroup_class = Map.empty\<rparr>
       \<lparr>t_ktime = 5000000000, t_pid_tgid = 0, t_cgroup_id = 108000, t_comm = ''nsenter'', t_ppid = 1\<rparr> 0 []) = Some raw \<and>
     agent_handle (demo_aenv (demo_api ''prod'') demo_fs) 6000000000 raw (snd (tracer_init False True 0))
       (demo_agent (demo_resolved ''prod'')) = (v, tr', a') \<and>
     kills (sh_effects (ag_shared a')) = [demo_path]"
proof -
  let ?t = "\<lparr>t_ktime = 5000000000, t_pid_tgid = 0, t_cgroup_id = 108000, t_comm = ''nsenter'', t_ppid = 1\<rparr>"
  let ?m = "\<lparr>armed_cgroups = Map.empty, cgroup_class = Map.empty\<rparr>"
  let ?a = "demo_agent (demo_resolved ''prod'')"
  let ?env = "demo_aenv (demo_api ''prod'') demo_fs"
  obtain raw where raw: "submitted (run_probe Setns False ?m ?t 0 []) = Some raw"
    by (simp add: run_probe_spec delivered_def should_skip_def perf_submit_def del: run_probe.simps)
  obtain v tr' a' where h: "agent_handle ?env 6000000000 raw (snd (tracer_init False True 0)) ?a = (v, tr', a')"
    by (metis prod.exhaust)
  have noise: "\<not> is_noise (decode_replace (c_string 16 (t_comm ?t)))"
    by (simp add: c_string_def decode_ascii byte_def is_noise_def noise_comms_def noise_comm_prefixes_def
        startswith_def isdigit_ascii)
  have "kills (sh_effects (ag_shared a')) = kills (sh_effects (ag_shared ?a)) @ [demo_path]"
    using escape_kills_pod [OF raw _ noise _ _ _ _ _ _ _ _ h, where k = demo_killer and ns = "''prod''"
        and p = demo_path and name = "''attacker''" and threshold = 90]
      demo_knows_pod
    by (simp add: demo_agent_def correlator_ok_empty demo_policy_def numeric_def demo_aenv_def
        correlation_window_sec_def may_kill_def demo_killer_def demo_fs_def)
  with raw h show ?thesis by (auto simp: demo_agent_def)
qed

section \<open>Scores of known calls\<close>

text \<open>The chains of the documentation, and two names of \<open>/etc/shadow\<close> that no rule matches.\<close>

lemma documented_scores:
  "score_event (demo_event c ''cat'' ''openat'' ''/etc/shadow'' s)
     + score_event (demo_event c ''chroot'' ''chroot'' ''/'' s') = 110"
  "score_event (demo_event c ''cat'' ''openat'' ''/proc/1/root/etc/shadow'' s) = 160"
  "score_event (demo_event c ''cat'' ''openat'' ''/host/etc/shadow'' s) = 90"
  "score_event (demo_event c ''cat'' ''openat'' ''/host/usr/src'' s) = 30"
  by (simp_all add: score_eval demo_event_def)

lemma unmatched_names:
  "score_event (demo_event c ''cat'' ''openat'' ''/etc//shadow'' s) = 0"
  "score_event (demo_event c ''cat'' ''openat'' ''shadow'' s) = 0"
  by (simp_all add: score_eval demo_event_def)

section \<open>Modes and parts that must agree\<close>

text \<open>C32. \<open>--kernel-enforce\<close> does not need \<open>--enforce\<close>: an agent started with the first and without
  the second reports its killer as dry-run, and yet the eBPF program it loaded answers the first
  red-line call of any process the startup did not classify, other than a container runtime, with
  SIGKILL, in whatever namespace it runs.\<close>
theorem kernel_enforce_without_enforce_kills:
  assumes "main_setup cf document node now support env = Inr sys"
    and "cf_kernel_enforce cf" and "support" and "\<not> cf_enforce cf"
    and "sys_classes sys (t_cgroup_id t) = None"
    and "response sc = RedLine" and "\<not> is_container_runtime (t_comm t)"
  shows "(\<forall>k. ag_killer (sys_agent sys) = Some k \<longrightarrow> ki_dry_run k) \<and>
     signals (run_probe sc (sys_enforce sys)
       \<lparr>armed_cgroups = ag_armed (sys_agent sys), cgroup_class = sys_classes sys\<rparr> t fam arg) = [9]"
proof -
  have "toothless (sys_agent sys)" using main_setup_toothless [OF assms(1)] assms(4) by simp
  moreover have "sys_enforce sys" using main_setup_fresh(3) [OF assms(1)] assms(2,3) by simp
  moreover have "sc \<noteq> Connect" using assms(6) by auto
  ultimately show ?thesis
    using assms(5-7)
    by (auto simp: toothless_def run_probe_spec delivered_def should_skip_def kernel_kills_def response_due_def
        kill_allowed_def perf_submit_def)
qed

text \<open>Witness of C32: \<open>nsenter\<close> under the shipped policy, on a node without host directories.\<close>
theorem kernel_enforce_without_enforce_kills_witness:
  "\<exists>sys. main_setup \<lparr>cf_enforce = False, cf_no_k8s = False, cf_kernel_enforce = True,
       cf_no_kernel_filter = False, cf_sync_interval = 5, cf_metrics_port = 9102\<rparr> shipped_config ''worker-1'' 0 True
       (demo_env ''kube-system'') = Inr sys \<and>
     signals (run_probe Setns (sys_enforce sys)
       \<lparr>armed_cgroups = ag_armed (sys_agent sys), cgroup_class = sys_classes sys\<rparr>
       \<lparr>t_ktime = 1, t_pid_tgid = 0, t_cgroup_id = 108000, t_comm = ''nsenter'', t_ppid = 1\<rparr> 0 []) = [9]"
proof -
  let ?cf = "\<lparr>cf_enforce = False, cf_no_k8s = False, cf_kernel_enforce = True,
       cf_no_kernel_filter = False, cf_sync_interval = 5, cf_metrics_port = 9102\<rparr>"
  let ?env = "demo_env ''kube-system''"
  obtain sys where sys: "main_setup ?cf shipped_config ''worker-1'' 0 True ?env = Inr sys"
    using shipped_setup by blast
  have "sys_classes sys = Map.empty" by (rule demo_classes [OF sys])
  with kernel_enforce_without_enforce_kills [OF sys, of _ Setns] sys show ?thesis
    by (simp add: is_container_runtime_iff del: run_probe.simps)
qed

end
